theory Spec2Isabelle
  imports Main "HOL-Library.Multiset"
begin

section \<open>Strings and paths of the Go standard library\<close>

text \<open>
  Go strings are byte sequences; they are modelled as \<^typ>\<open>string\<close>. The helpers
  below are the functions of packages \<^verbatim>\<open>strings\<close> and \<^verbatim>\<open>path\<close> that
  \<^verbatim>\<open>cmd/templ/generatecmd/main.go\<close> calls.
\<close>

definition strings_HasPrefix :: "string \<Rightarrow> string \<Rightarrow> bool" where
  "strings_HasPrefix s p = (take (length p) s = p)"

definition strings_HasSuffix :: "string \<Rightarrow> string \<Rightarrow> bool" where
  "strings_HasSuffix s suf =
     (length suf \<le> length s \<and> drop (length s - length suf) s = suf)"

definition strings_TrimSuffix :: "string \<Rightarrow> string \<Rightarrow> string" where
  "strings_TrimSuffix s suf =
     (if strings_HasSuffix s suf then take (length s - length suf) s else s)"

text \<open>
  \<^verbatim>\<open>path.Split\<close> cuts immediately after the final slash; without a slash the
  directory part is empty and the file part is the whole path.
\<close>

definition path_Split :: "string \<Rightarrow> string \<times> string" where
  "path_Split p =
     (let name = rev (takeWhile (\<lambda>c. c \<noteq> CHR ''/'') (rev p))
      in (take (length p - length name) p, name))"

text \<open>
  \<^verbatim>\<open>filepath.Join(dir, name)\<close> as \<^verbatim>\<open>filepath.WalkDir\<close> uses it: \<open>dir\<close>
  is a cleaned path and \<open>name\<close> a single element, so the result is the two joined by
  one separator (the root \<^verbatim>\<open>/\<close> already ends in one).
\<close>

definition filepath_Join :: "string \<Rightarrow> string \<Rightarrow> string" where
  "filepath_Join dir name =
     (if strings_HasSuffix dir ''/'' then dir @ name else dir @ ''/'' @ name)"

section \<open>Directory exclusion\<close>

definition shouldSkipDir :: "string \<Rightarrow> bool" where
  "shouldSkipDir dir =
     (if dir = ''.'' then False
      else if dir = ''vendor'' \<or> dir = ''node_modules'' then True
      else (let name = snd (path_Split dir)
            in if strings_HasPrefix name ''.'' \<or> strings_HasPrefix name ''_'' then True
               else False))"

section \<open>Errors, collaborators and the state of a run\<close>

text \<open>
  Go's \<^verbatim>\<open>error\<close> values. \<open>Canceled\<close> is \<^verbatim>\<open>context.Canceled\<close>,
  \<open>SkipDir\<close> is \<^verbatim>\<open>filepath.SkipDir\<close>, \<open>ErrNotExist\<close> is what
  \<^verbatim>\<open>os.IsNotExist\<close> recognises, \<open>Ext\<close> is any other error of the operating
  system or of an external collaborator. \<open>Errorf_w msg e\<close> is
  \<^verbatim>\<open>fmt.Errorf("msg: %w", e)\<close>, which keeps \<open>e\<close> in its chain; \<open>Errorf_v msg es\<close>
  is \<^verbatim>\<open>fmt.Errorf("msg: %v", errors.Join(es...))\<close>, which only prints the errors;
  \<open>Errorf msg\<close> has no error argument.
\<close>

datatype error =
    Canceled
  | SkipDir
  | ErrNotExist
  | Ext string
  | Errorf string
  | Errorf_w string error
  | Errorf_v string "error list"

text \<open>\<^verbatim>\<open>errors.Is(err, context.Canceled)\<close>: follows the \<^verbatim>\<open>%w\<close> chain only.\<close>

fun errors_Is_Canceled :: "error \<Rightarrow> bool" where
  "errors_Is_Canceled Canceled = True"
| "errors_Is_Canceled (Errorf_w msg e) = errors_Is_Canceled e"
| "errors_Is_Canceled e = False"

definition os_IsNotExist :: "error \<Rightarrow> bool" where
  "os_IsNotExist e = (e = ErrNotExist)"

datatype diagnostic = Diagnostic string nat nat

datatype templateFile = TemplateFile (Diagnostics: "diagnostic list") string

datatype generateOpt = WithVersion string | WithTimestamp int | WithFileName string

text \<open>
  What the run writes to its output and what it starts, in order. \<open>Dispatch\<close> is the
  start of the goroutine that compiles a changed file.
\<close>

datatype event =
    Processing_path string
  | Dispatch string
  | Deleted_orphaned_file string
  | Generated_code_ok string
  | Generated_code_warn string "diagnostic list"
  | Error_processing_path "error list"
  | Summary_error nat nat
  | Summary_success nat nat
  | Executing_command string
  | Error_starting_command error
  | SendSSE string string
  | ProxyListen int
  | OpenURL int
  | Version_check_failed error
  | Sleep nat

text \<open>
  The external collaborators of the orchestrator (parser, generator, formatter,
  visualiser, command runner, URL and path functions) and the faults of the operating
  system are parameters of the model: the fields of \<open>env\<close>. \<open>semver_Compare\<close> is
  \<^verbatim>\<open>semver.Compare\<close> of \<^verbatim>\<open>golang.org/x/mod\<close>, with its result negative, zero or
  positive.
\<close>

record env =
  templ_Version :: string
  time_Now :: int
  parser_Parse :: "(string \<rightharpoonup> string) \<Rightarrow> string \<Rightarrow> error + templateFile"
  generator_Generate :: "templateFile \<Rightarrow> generateOpt list \<Rightarrow> error + (string \<times> string)"
  format_Source :: "string \<Rightarrow> error + string"
  filepath_Rel :: "string \<Rightarrow> string \<Rightarrow> string"
  visualize_Render :: "string \<Rightarrow> string \<Rightarrow> string \<Rightarrow> string \<Rightarrow> string \<times> error option"
  read_fault :: "string \<Rightarrow> error option"
  write_fault :: "string \<Rightarrow> error option"
  create_fault :: "string \<Rightarrow> error option"
  remove_fault :: "string \<Rightarrow> error option"
  run_Run :: "string \<Rightarrow> string \<Rightarrow> error option"
  url_Parse :: "string \<Rightarrow> error + string"
  path_IsAbs :: "string \<Rightarrow> bool"
  filepath_Abs :: "string \<Rightarrow> error + string"
  modfile_Parse :: "string \<Rightarrow> string \<Rightarrow> error + (string \<times> (string \<times> string) list)"
  semver_Compare :: "string \<Rightarrow> string \<Rightarrow> int"
  defaultWorkerCount :: int
  backoff_Multiplier :: "nat \<times> nat"

text \<open>
  The state a run threads through its calls. \<open>fs\<close> is the live file system (path to
  contents); \<open>ctx\<close> is the cancellation context: \<open>None\<close> is never cancelled,
  \<open>Some n\<close> is cancelled by the interrupt signal after \<open>n\<close> more checks of
  \<^verbatim>\<open>ctx.Err()\<close> have passed; \<open>modTimes\<close> is \<^verbatim>\<open>fileNameToLastModTime\<close>;
  \<open>changesFound\<close> and \<open>errs\<close> are the results of the scan under way. A
  \<^verbatim>\<open>time.Time\<close> is an \<^typ>\<open>int\<close>, its zero value \<open>0\<close>.
\<close>

record state =
  fs :: "string \<rightharpoonup> string"
  ctx :: "nat option"
  trace :: "event list"
  modTimes :: "string \<rightharpoonup> int"
  changesFound :: nat
  errs :: "error list"

definition ctx_Err :: "state \<Rightarrow> error option \<times> state" where
  "ctx_Err s =
     (case ctx s of
        None \<Rightarrow> (None, s)
      | Some 0 \<Rightarrow> (Some Canceled, s)
      | Some (Suc n) \<Rightarrow> (None, s\<lparr>ctx := Some n\<rparr>))"

definition emit :: "event \<Rightarrow> state \<Rightarrow> state" where
  "emit e s = s\<lparr>trace := trace s @ [e]\<rparr>"

subsection \<open>The operating system's file operations\<close>

definition os_Stat :: "state \<Rightarrow> string \<Rightarrow> error option" where
  "os_Stat s p = (case fs s p of None \<Rightarrow> Some ErrNotExist | Some c \<Rightarrow> None)"

definition os_ReadFile :: "env \<Rightarrow> state \<Rightarrow> string \<Rightarrow> string \<times> error option" where
  "os_ReadFile E s p =
     (case fs s p of
        None \<Rightarrow> ([], Some ErrNotExist)
      | Some c \<Rightarrow> (case read_fault E p of Some e \<Rightarrow> ([], Some e) | None \<Rightarrow> (c, None)))"

definition os_WriteFile :: "env \<Rightarrow> string \<Rightarrow> string \<Rightarrow> state \<Rightarrow> error option \<times> state" where
  "os_WriteFile E p data s =
     (case write_fault E p of
        Some e \<Rightarrow> (Some e, s)
      | None \<Rightarrow> (None, s\<lparr>fs := (fs s)(p \<mapsto> data)\<rparr>))"

definition os_Create :: "env \<Rightarrow> string \<Rightarrow> state \<Rightarrow> error option \<times> state" where
  "os_Create E p s =
     (case create_fault E p of
        Some e \<Rightarrow> (Some e, s)
      | None \<Rightarrow> (None, s\<lparr>fs := (fs s)(p \<mapsto> [])\<rparr>))"

definition os_Remove :: "env \<Rightarrow> string \<Rightarrow> state \<Rightarrow> error option \<times> state" where
  "os_Remove E p s =
     (case fs s p of
        None \<Rightarrow> (Some ErrNotExist, s)
      | Some c \<Rightarrow>
          (case remove_fault E p of
             Some e \<Rightarrow> (Some e, s)
           | None \<Rightarrow> (None, s\<lparr>fs := (fs s)(p := None)\<rparr>)))"

section \<open>The pipeline of one file\<close>

text \<open>
  \<^verbatim>\<open>generateSourceMapVisualisation\<close>. The two reads run in two goroutines that are
  joined before either result is looked at; they change nothing, so their order does not
  matter. The file created for the visualisation receives what the renderer wrote.
\<close>

definition generateSourceMapVisualisation ::
  "env \<Rightarrow> string \<Rightarrow> string \<Rightarrow> string \<Rightarrow> state \<Rightarrow> error option \<times> state" where
  "generateSourceMapVisualisation E templFileName goFileName sourceMap s =
     (case ctx_Err s of
        (Some err, s1) \<Rightarrow> (Some err, s1)
      | (None, s1) \<Rightarrow>
          (let (templContents, templErr) = os_ReadFile E s1 templFileName;
               (goContents, goErr) = os_ReadFile E s1 goFileName
           in if templErr \<noteq> None then (templErr, s1)
              else if goErr \<noteq> None then (templErr, s1)
              else
                (let targetFileName =
                       strings_TrimSuffix templFileName ''.templ'' @ ''_templ_sourcemap.html''
                 in case os_Create E targetFileName s1 of
                      (Some err, s2) \<Rightarrow>
                        (Some (Errorf_w (templFileName @ '' sourcemap visualisation error'') err), s2)
                    | (None, s2) \<Rightarrow>
                        (let (html, rerr) =
                               visualize_Render E templFileName templContents goContents sourceMap
                         in (rerr, s2\<lparr>fs := (fs s2)(targetFileName \<mapsto> html)\<rparr>)))))"

text \<open>\<^verbatim>\<open>generate\<close> returns the diagnostics and the error, as the Go function does.\<close>

definition generate ::
  "env \<Rightarrow> string \<Rightarrow> string \<Rightarrow> bool \<Rightarrow> generateOpt list \<Rightarrow> state
     \<Rightarrow> (diagnostic list \<times> error option) \<times> state" where
  "generate E basePath fileName generateSourceMapVisualisations opts s =
     (case ctx_Err s of
        (Some err, s1) \<Rightarrow> (([], Some err), s1)
      | (None, s1) \<Rightarrow>
          (case parser_Parse E (fs s1) fileName of
             Inl err \<Rightarrow> (([], Some (Errorf_w (fileName @ '' parsing error'') err)), s1)
           | Inr t \<Rightarrow>
               (let targetFileName = strings_TrimSuffix fileName ''.templ'' @ ''_templ.go'';
                    errorMessageFileName =
                      (if basePath \<noteq> [] then filepath_Rel E basePath fileName else fileName)
                in case generator_Generate E t (opts @ [WithFileName errorMessageFileName]) of
                     Inl err \<Rightarrow> (([], Some (Errorf_w (fileName @ '' generation error'') err)), s1)
                   | Inr (b, sourceMap) \<Rightarrow>
                       (case format_Source E b of
                          Inl err \<Rightarrow>
                            (([], Some (Errorf_w (fileName @ '' source formatting error'') err)), s1)
                        | Inr data \<Rightarrow>
                            (case os_WriteFile E targetFileName data s1 of
                               (Some err, s2) \<Rightarrow>
                                 (([], Some (Errorf_w (targetFileName @ '' write file error'') err)), s2)
                             | (None, s2) \<Rightarrow>
                                 (if generateSourceMapVisualisations then
                                    (let (err, s3) =
                                           generateSourceMapVisualisation E fileName targetFileName
                                             sourceMap s2
                                     in ((Diagnostics t, err), s3))
                                  else ((Diagnostics t, None), s2)))))))"

definition processSingleFile ::
  "env \<Rightarrow> string \<Rightarrow> string \<Rightarrow> bool \<Rightarrow> generateOpt list \<Rightarrow> state
     \<Rightarrow> error option \<times> state" where
  "processSingleFile E basePath fileName generateSourceMapVisualisations opts s =
     (case generate E basePath fileName generateSourceMapVisualisations opts s of
        ((diag, Some err), s1) \<Rightarrow> (Some err, s1)
      | ((diag, None), s1) \<Rightarrow>
          (if length diag > 0 then (None, emit (Generated_code_warn fileName diag) s1)
           else (None, emit (Generated_code_ok fileName) s1)))"

section \<open>One scan: the walk, the orphan check and the change detector\<close>

text \<open>
  What \<^verbatim>\<open>filepath.WalkDir\<close> finds: a file with its name and the modification time
  that \<^verbatim>\<open>info.Info()\<close> gives (\<open>Inl\<close> its error), a directory with its name and
  the entries \<^verbatim>\<open>os.ReadDir\<close> lists, or a directory that cannot be listed.
\<close>

datatype dirEntry =
    FileE string "error + int"
  | DirE string "dirEntry list"
  | BadDirE string error

fun IsDir :: "dirEntry \<Rightarrow> bool" where
  "IsDir (FileE n i) = False"
| "IsDir (DirE n es) = True"
| "IsDir (BadDirE n e) = True"

fun Name :: "dirEntry \<Rightarrow> string" where
  "Name (FileE n i) = n"
| "Name (DirE n es) = n"
| "Name (BadDirE n e) = n"

fun Info :: "dirEntry \<Rightarrow> error + int" where
  "Info (FileE n i) = i"
| "Info (DirE n es) = Inr 0"
| "Info (BadDirE n e) = Inr 0"

text \<open>
  The function passed to \<^verbatim>\<open>filepath.WalkDir\<close> in \<^verbatim>\<open>processChanges\<close>. A changed
  source file is recorded and counted, then handed to a goroutine once the semaphore has a
  free slot. This sequential model runs that goroutine to its end at the point of
  dispatch, which is one of the schedules the pool allows for every capacity of at least
  one; the pool's own interleavings are the subject of \<open>pool_step\<close> below.
\<close>

definition walkFn ::
  "env \<Rightarrow> string \<Rightarrow> bool \<Rightarrow> generateOpt list \<Rightarrow> bool
     \<Rightarrow> string \<Rightarrow> dirEntry \<Rightarrow> error option \<Rightarrow> state \<Rightarrow> error option \<times> state" where
  "walkFn E path generateSourceMapVisualisations opts keepOrphanedFiles fileName info err s =
     (case err of
        Some e \<Rightarrow> (Some e, s)
      | None \<Rightarrow>
     (case ctx_Err s of
        (Some e, s1) \<Rightarrow> (Some e, s1)
      | (None, s1) \<Rightarrow>
          if IsDir info \<and> shouldSkipDir fileName then (Some SkipDir, s1)
          else if IsDir info then (None, s1)
          else if \<not> keepOrphanedFiles \<and> strings_HasSuffix fileName ''_templ.go'' then
            (if os_Stat s1 (strings_TrimSuffix fileName ''_templ.go'' @ ''.templ'') = None
             then (None, s1)
             else (case os_Remove E fileName s1 of
                     (Some e, s2) \<Rightarrow> (Some (Errorf_w ''failed to remove file'' e), s2)
                   | (None, s2) \<Rightarrow> (None, emit (Deleted_orphaned_file fileName) s2)))
          else if strings_HasSuffix fileName ''.templ'' then
            (let lastModTime = (case modTimes s1 fileName of None \<Rightarrow> 0 | Some t \<Rightarrow> t)
             in case Info info of
                  Inl e \<Rightarrow> (Some (Errorf_w ''failed to get file info'' e), s1)
                | Inr modTime \<Rightarrow>
                    if modTime > lastModTime then
                      (let s2 = s1\<lparr>modTimes := (modTimes s1)(fileName \<mapsto> modTime),
                                    changesFound := changesFound s1 + 1\<rparr>
                       in case processSingleFile E path fileName
                                 generateSourceMapVisualisations opts
                                 (emit (Dispatch fileName) s2) of
                            (Some e, s3) \<Rightarrow> (None, s3\<lparr>errs := errs s3 @ [e]\<rparr>)
                          | (None, s3) \<Rightarrow> (None, s3))
                    else (None, s1))
          else (None, s1)))"

text \<open>
  \<^verbatim>\<open>filepath.WalkDir\<close>: the function is called on a path before its entries; an
  error it returns ends the walk, except \<open>SkipDir\<close>, which on a directory skips its
  entries and on a file skips the rest of the directory it is in. A directory that cannot
  be listed is reported by a second call with the error.
\<close>

fun walkDir ::
    "(string \<Rightarrow> dirEntry \<Rightarrow> error option \<Rightarrow> state \<Rightarrow> error option \<times> state)
       \<Rightarrow> string \<Rightarrow> dirEntry \<Rightarrow> state \<Rightarrow> error option \<times> state"
  and walkEntries ::
    "(string \<Rightarrow> dirEntry \<Rightarrow> error option \<Rightarrow> state \<Rightarrow> error option \<times> state)
       \<Rightarrow> string \<Rightarrow> dirEntry list \<Rightarrow> state \<Rightarrow> error option \<times> state" where
  "walkDir f p (FileE n i) s = f p (FileE n i) None s"
| "walkDir f p (DirE n es) s =
     (case f p (DirE n es) None s of
        (Some e, s1) \<Rightarrow> (if e = SkipDir then None else Some e, s1)
      | (None, s1) \<Rightarrow> walkEntries f p es s1)"
| "walkDir f p (BadDirE n rerr) s =
     (case f p (BadDirE n rerr) None s of
        (Some e, s1) \<Rightarrow> (if e = SkipDir then None else Some e, s1)
      | (None, s1) \<Rightarrow>
          (case f p (BadDirE n rerr) (Some rerr) s1 of
             (Some e, s2) \<Rightarrow> (if e = SkipDir then None else Some e, s2)
           | (None, s2) \<Rightarrow> (None, s2)))"
| "walkEntries f p [] s = (None, s)"
| "walkEntries f p (d1 # ds) s =
     (case walkDir f (filepath_Join p (Name d1)) d1 s of
        (Some e, s1) \<Rightarrow> (if e = SkipDir then None else Some e, s1)
      | (None, s1) \<Rightarrow> walkEntries f p ds s1)"

text \<open>
  The root of the walk is \<open>Inl\<close> the error of \<^verbatim>\<open>os.Lstat\<close> or \<open>Inr\<close> its entry. In
  the first case the function is called with the error and no entry; it returns the
  error before it reads the entry, which is a placeholder here.
\<close>

definition filepath_WalkDir ::
  "string \<Rightarrow> error + dirEntry
     \<Rightarrow> (string \<Rightarrow> dirEntry \<Rightarrow> error option \<Rightarrow> state \<Rightarrow> error option \<times> state)
     \<Rightarrow> state \<Rightarrow> error option \<times> state" where
  "filepath_WalkDir root rootEntry f s =
     (case (case rootEntry of
              Inl lerr \<Rightarrow> f root (FileE [] (Inl lerr)) (Some lerr) s
            | Inr d \<Rightarrow> walkDir f root d s) of
        (Some e, s1) \<Rightarrow> (if e = SkipDir then None else Some e, s1)
      | (None, s1) \<Rightarrow> (None, s1))"

text \<open>
  \<^verbatim>\<open>processChanges\<close>: \<open>changesFound\<close> and \<open>errs\<close> start empty, the error of the
  walk is appended, and the wait for the goroutines returns at once, since each has run
  to its end. The results are the fields \<open>changesFound\<close> and \<open>errs\<close> of the state
  returned.
\<close>

definition processChanges ::
  "env \<Rightarrow> string \<Rightarrow> error + dirEntry \<Rightarrow> bool \<Rightarrow> generateOpt list \<Rightarrow> bool
     \<Rightarrow> state \<Rightarrow> state" where
  "processChanges E path rootEntry generateSourceMapVisualisations opts keepOrphanedFiles s =
     (case filepath_WalkDir path rootEntry
             (walkFn E path generateSourceMapVisualisations opts keepOrphanedFiles)
             (s\<lparr>changesFound := 0, errs := []\<rparr>) of
        (Some err, s1) \<Rightarrow> s1\<lparr>errs := errs s1 @ [err]\<rparr>
      | (None, s1) \<Rightarrow> s1)"

section \<open>The version gate\<close>

text \<open>
  \<^verbatim>\<open>goVersionRegexp\<close> is \<^verbatim>\<open>\ngo (\d+\.\d+)\.\d+\n\<close>. Each \<^verbatim>\<open>\d+\<close> is followed
  by a character that is no digit, so a match at a position is unique: it takes every
  digit of each run. \<open>matchGoVersion\<close> returns the first group and the number of bytes
  matched.
\<close>

definition isDigit :: "char \<Rightarrow> bool" where
  "isDigit c = (c \<in> set ''0123456789'')"

definition digitRun :: "string \<Rightarrow> (string \<times> string) option" where
  "digitRun s =
     (let d = takeWhile isDigit s
      in if d = [] then None else Some (d, dropWhile isDigit s))"

definition matchGoVersion :: "string \<Rightarrow> (string \<times> nat) option" where
  "matchGoVersion s =
     (if strings_HasPrefix s (CHR 0x0A # ''go '') then
        (case digitRun (drop 4 s) of
           None \<Rightarrow> None
         | Some (d1, r1) \<Rightarrow>
             if \<not> strings_HasPrefix r1 ''.'' then None
             else (case digitRun (drop 1 r1) of
                     None \<Rightarrow> None
                   | Some (d2, r2) \<Rightarrow>
                       if \<not> strings_HasPrefix r2 ''.'' then None
                       else (case digitRun (drop 1 r2) of
                               None \<Rightarrow> None
                             | Some (d3, r3) \<Rightarrow>
                                 if strings_HasPrefix r3 [CHR 0x0A]
                                 then Some (d1 @ ''.'' @ d2,
                                            4 + length d1 + 1 + length d2 + 1 + length d3 + 1)
                                 else None)))
      else None)"

text \<open>
  \<^verbatim>\<open>goVersionRegexp.ReplaceAll(m, "\ngo $1\n")\<close>: matches are taken from the left and
  do not overlap. The first argument counts the bytes of the current match still to be
  dropped.
\<close>

fun replaceFrom :: "nat \<Rightarrow> string \<Rightarrow> string" where
  "replaceFrom k [] = []"
| "replaceFrom (Suc k) (c # cs) = replaceFrom k cs"
| "replaceFrom 0 (c # cs) =
     (case matchGoVersion (c # cs) of
        Some (g, n) \<Rightarrow> (CHR 0x0A # ''go '') @ g @ [CHR 0x0A] @ replaceFrom (n - 1) cs
      | None \<Rightarrow> c # replaceFrom 0 cs)"

definition goVersionRegexp_ReplaceAll :: "string \<Rightarrow> string" where
  "goVersionRegexp_ReplaceAll m = replaceFrom 0 m"

text \<open>
  \<^verbatim>\<open>filepath.Dir\<close> on a cleaned path: everything before the last separator, without
  trailing separators; the root is its own parent and a path without a separator has the
  parent \<^verbatim>\<open>.\<close>.
\<close>

definition filepath_Dir :: "string \<Rightarrow> string" where
  "filepath_Dir p =
     (let d = fst (path_Split p);
          d' = rev (dropWhile (\<lambda>c. c = CHR ''/'') (rev d))
      in if d = [] then ''.'' else if d' = [] then ''/'' else d')"

text \<open>
  The \<^verbatim>\<open>range mf.Require\<close> loop of \<^verbatim>\<open>checkTemplVersion\<close>: \<open>Some r\<close> when it
  returns \<open>r\<close>, \<open>None\<close> when it ends without returning.
\<close>

fun requireLoop :: "env \<Rightarrow> (string \<times> string) list \<Rightarrow> error option option" where
  "requireLoop E [] = None"
| "requireLoop E (r # rs) =
     (if fst r = ''github.com/a-h/templ'' then
        (let cmp = semver_Compare E (snd r) (templ_Version E)
         in if cmp < 0 then
              Some (Some (Errorf (''generator '' @ templ_Version E @
                '' is newer than templ version '' @ snd r @
                '' found in go.mod file, consider running `go get -u github.com/a-h/templ` to upgrade'')))
            else if cmp > 0 then
              Some (Some (Errorf (''generator '' @ templ_Version E @
                '' is older than templ version '' @ snd r @
                '' found in go.mod file, consider upgrading templ CLI'')))
            else Some None)
      else requireLoop E rs)"

text \<open>
  The outer \<^verbatim>\<open>for\<close> loop of \<^verbatim>\<open>checkTemplVersion\<close>. It has no exit of its own:
  when a manifest is found that does not require the tool, the loop runs again on the
  same directory. The result \<open>None\<close> is a loop that never returns.
\<close>

partial_function (option) checkTemplVersion_loop ::
  "env \<Rightarrow> state \<Rightarrow> string \<Rightarrow> error option option" where
  "checkTemplVersion_loop E s dir =
     (let current = filepath_Join dir ''go.mod'' in
      case os_Stat s current of
        Some err \<Rightarrow>
          if \<not> os_IsNotExist err then Some (Some (Errorf_w ''failed to stat go.mod file'' err))
          else if filepath_Dir dir = dir then Some (Some (Errorf ''could not find go.mod file''))
          else checkTemplVersion_loop E s (filepath_Dir dir)
      | None \<Rightarrow>
          (case os_ReadFile E s current of
             (m, Some err) \<Rightarrow> Some (Some (Errorf_w ''failed to read go.mod file'' err))
           | (m, None) \<Rightarrow>
               (case modfile_Parse E current (goVersionRegexp_ReplaceAll m) of
                  Inl err \<Rightarrow> Some (Some (Errorf_w ''failed to parse go.mod file'' err))
                | Inr (modulePath, require) \<Rightarrow>
                    if modulePath = ''github.com/a-h/templ'' then Some None
                    else (case requireLoop E require of
                            Some r \<Rightarrow> Some r
                          | None \<Rightarrow> checkTemplVersion_loop E s dir))))"

declare checkTemplVersion_loop.simps [code]

definition checkTemplVersion :: "env \<Rightarrow> state \<Rightarrow> string \<Rightarrow> error option option" where
  "checkTemplVersion E s dir =
     (case filepath_Abs E dir of
        Inl err \<Rightarrow> Some (Some (Errorf_w ''failed to get absolute path'' err))
      | Inr dir' \<Rightarrow> checkTemplVersion_loop E s dir')"

section \<open>The backoff scheduler\<close>

text \<open>
  The scheduler is \<^verbatim>\<open>ExponentialBackOff\<close> of \<^verbatim>\<open>github.com/cenkalti/backoff/v4\<close>,
  a dependency whose code is not part of the repository. Durations are in milliseconds.
\<close>

record ExponentialBackOff =
  InitialInterval :: nat
  MaxInterval :: nat
  MaxElapsedTime :: nat
  Multiplier :: "nat \<times> nat"
  currentInterval :: nat

text \<open>
  Modelled from the spec: the reset operation of the backoff state, which the dependency
  implements. It sets the current interval back to the initial interval.
\<close>

definition backoff_Reset :: "ExponentialBackOff \<Rightarrow> ExponentialBackOff" where
  "backoff_Reset b = b\<lparr>currentInterval := InitialInterval b\<rparr>"

text \<open>
  Modelled from the spec: the constructor of the backoff state, which the dependency
  implements. A new scheduler is reset; its growth factor is the dependency's own, a
  fraction given as numerator and denominator; its bounds are the ones the spec names
  (\<^verbatim>\<open>runCmd\<close> assigns them again).
\<close>

definition backoff_NewExponentialBackOff :: "nat \<times> nat \<Rightarrow> ExponentialBackOff" where
  "backoff_NewExponentialBackOff factor =
     backoff_Reset \<lparr>InitialInterval = 500, MaxInterval = 3000, MaxElapsedTime = 0,
                     Multiplier = factor, currentInterval = 0\<rparr>"

text \<open>
  Modelled from the spec: the next delay of the backoff state, which the dependency
  implements. The delay is the current interval, which then grows by the factor up to the
  interval cap. There is no elapsed-time ceiling, so a delay is always returned.
\<close>

definition backoff_NextBackOff :: "ExponentialBackOff \<Rightarrow> nat \<times> ExponentialBackOff" where
  "backoff_NextBackOff b =
     (currentInterval b,
      b\<lparr>currentInterval :=
           min (MaxInterval b)
               (currentInterval b * fst (Multiplier b) div snd (Multiplier b))\<rparr>)"

section \<open>The run loop\<close>

record Arguments =
  FileName :: string
  Path :: string
  Watch :: bool
  Command :: string
  ProxyPort :: int
  Proxy :: string
  WorkerCount :: int
  GenerateSourceMapVisualisations :: bool
  IncludeVersion :: bool
  IncludeTimestamp :: bool
  PPROFPort :: int
  KeepOrphanedFiles :: bool

text \<open>
  How a run ends: it returned (with an error or none), it was still in its loop when the
  observed scans ended, or it is caught in the loop of the version gate.
\<close>

datatype outcome = Returned "error option" | Unfinished | Diverged

text \<open>
  What the loop reads at the start of a scan: the entry at the root path and the live
  file system, both as the outside world has left them.
\<close>

type_synonym scan_input = "(error + dirEntry) \<times> (string \<rightharpoonup> string)"

text \<open>
  Lines 150 to 181 of \<^verbatim>\<open>runCmd\<close>: what the loop does after a scan that found
  changes. \<open>p\<close> says whether the proxy handle is set; \<open>n\<close> and \<open>es\<close> are the
  results of the scan. The proxy's listener and the task that opens the browser are two
  goroutines, started here.
\<close>

definition reportChanges ::
  "env \<Rightarrow> Arguments \<Rightarrow> bool \<Rightarrow> bool \<Rightarrow> nat \<Rightarrow> error list \<Rightarrow> state \<Rightarrow> state" where
  "reportChanges E args p firstRunComplete n es s =
     (let a = (if length es > 0 then emit (Summary_error n (length es)) s
               else emit (Summary_success n (length es)) s);
          b = (if Command args \<noteq> [] then
                 (let b1 = emit (Executing_command (Command args)) a
                  in case run_Run E (Path args) (Command args) of
                       Some e \<Rightarrow> emit (Error_starting_command e) b1
                     | None \<Rightarrow> b1)
               else a);
          c = (if p then emit (SendSSE ''message'' ''reload'') b else b)
      in if \<not> firstRunComplete \<and> p
         then emit (OpenURL (ProxyPort args)) (emit (ProxyListen (ProxyPort args)) c)
         else c)"

text \<open>
  Lines 186 to 191: after the first pass the loop sleeps for the next delay of the
  scheduler, which it resets first when the scan found changes.
\<close>

definition sleepBackOff ::
  "ExponentialBackOff \<Rightarrow> bool \<Rightarrow> nat \<Rightarrow> state \<Rightarrow> ExponentialBackOff \<times> state" where
  "sleepBackOff bo firstRunComplete n s =
     (if firstRunComplete then
        (let bo1 = (if n > 0 then backoff_Reset bo else bo);
             (d, bo2) = backoff_NextBackOff bo1
         in (bo2, emit (Sleep d) s))
      else (bo, s))"

text \<open>
  Lines 141 to 191: what the loop does with the state \<open>s1\<close> that a scan has left,
  whose fields \<open>changesFound\<close> and \<open>errs\<close> are the results of the scan. The result
  is \<open>Inl\<close> how the run ends in this iteration or \<open>Inr\<close> the scheduler for the next
  one.
\<close>

definition afterScan ::
  "env \<Rightarrow> Arguments \<Rightarrow> bool \<Rightarrow> ExponentialBackOff \<Rightarrow> bool \<Rightarrow> state
     \<Rightarrow> (outcome + ExponentialBackOff) \<times> state" where
  "afterScan E args p bo firstRunComplete s1 =
     (if length (errs s1) > 0 \<and> errors_Is_Canceled (hd (errs s1))
      then (Inl (Returned (Some (hd (errs s1)))), s1)
      else if length (errs s1) > 0 \<and> \<not> Watch args
      then (Inl (Returned (Some (Errorf_v ''failed to process path'' (errs s1)))), s1)
      else
        (let s2 = (if length (errs s1) > 0 then emit (Error_processing_path (errs s1)) s1
                   else s1);
             s3 = (if changesFound s1 > 0
                   then reportChanges E args p firstRunComplete (changesFound s1) (errs s1) s2
                   else s2)
         in case checkTemplVersion E s3 (Path args) of
              None \<Rightarrow> (Inl Diverged, s3)
            | Some verr \<Rightarrow>
                (let s4 = (case verr of Some e \<Rightarrow> emit (Version_check_failed e) s3
                                       | None \<Rightarrow> s3)
                 in case sleepBackOff bo firstRunComplete (changesFound s1) s4 of
                      (bo1, s5) \<Rightarrow> (Inr bo1, s5))))"

text \<open>
  The body of the \<^verbatim>\<open>for\<close> loop of \<^verbatim>\<open>runCmd\<close>, lines 140 to 193: a scan of the
  tree and the file system that the outside world presents, then the rest.
\<close>

definition loopBody ::
  "env \<Rightarrow> Arguments \<Rightarrow> bool \<Rightarrow> generateOpt list \<Rightarrow> ExponentialBackOff \<Rightarrow> bool
     \<Rightarrow> scan_input \<Rightarrow> state \<Rightarrow> (outcome + ExponentialBackOff) \<times> state" where
  "loopBody E args p opts bo firstRunComplete inp s =
     afterScan E args p bo firstRunComplete
       (processChanges E (Path args) (fst inp) (GenerateSourceMapVisualisations args)
          opts (KeepOrphanedFiles args) (s\<lparr>fs := snd inp\<rparr>))"

text \<open>
  The loop itself, \<^verbatim>\<open>for !firstRunComplete || args.Watch\<close>, over the scans that are
  observed. After a pass \<open>firstRunComplete\<close> is set.
\<close>

fun runCmd_loop ::
  "env \<Rightarrow> Arguments \<Rightarrow> bool \<Rightarrow> generateOpt list \<Rightarrow> ExponentialBackOff \<Rightarrow> bool
     \<Rightarrow> scan_input list \<Rightarrow> state \<Rightarrow> outcome \<times> state" where
  "runCmd_loop E args p opts bo firstRunComplete [] s =
     (if \<not> firstRunComplete \<or> Watch args then (Unfinished, s) else (Returned None, s))"
| "runCmd_loop E args p opts bo firstRunComplete (inp # inps) s =
     (if \<not> firstRunComplete \<or> Watch args then
        (case loopBody E args p opts bo firstRunComplete inp s of
           (Inl out, s1) \<Rightarrow> (out, s1)
         | (Inr bo1, s1) \<Rightarrow> runCmd_loop E args p opts bo1 True inps s1)
      else (Returned None, s))"

definition runCmd :: "env \<Rightarrow> Arguments \<Rightarrow> scan_input list \<Rightarrow> state \<Rightarrow> outcome \<times> state" where
  "runCmd E args inps s =
     (if Watch args \<and> FileName args \<noteq> [] then
        (Returned (Some (Errorf ''cannot watch a single file, remove the -f or -watch flag'')), s)
      else
        (let opts = (if IncludeVersion args then [WithVersion (templ_Version E)] else []) @
                    (if IncludeTimestamp args then [WithTimestamp (time_Now E)] else [])
         in if FileName args \<noteq> [] then
              (case processSingleFile E [] (FileName args)
                      (GenerateSourceMapVisualisations args) opts s of
                 (r, s1) \<Rightarrow> (Returned r, s1))
            else
              (case (if Proxy args \<noteq> [] then url_Parse E (Proxy args) else Inr []) of
                 Inl err \<Rightarrow> (Returned (Some (Errorf_w ''failed to parse proxy URL'' err)), s)
               | Inr target \<Rightarrow>
                   (let args1 = (if ProxyPort args = 0 then args\<lparr>ProxyPort := 7331\<rparr> else args);
                        args2 = (if WorkerCount args1 = 0
                                 then args1\<lparr>WorkerCount := defaultWorkerCount E\<rparr> else args1)
                    in case (if \<not> path_IsAbs E (Path args2) then filepath_Abs E (Path args2)
                             else Inr (Path args2)) of
                         Inl err \<Rightarrow> (Returned (Some err), s)
                       | Inr absPath \<Rightarrow>
                           (let args3 = args2\<lparr>Path := absPath\<rparr>;
                                p = (Proxy args3 \<noteq> []);
                                bo = (backoff_NewExponentialBackOff (backoff_Multiplier E))
                                       \<lparr>InitialInterval := 500, MaxInterval := 3000,
                                        MaxElapsedTime := 0\<rparr>
                            in runCmd_loop E args3 p opts bo False inps
                                 (emit (Processing_path (Path args3)) s))))))"

text \<open>
  \<^verbatim>\<open>Run\<close>. The first interrupt signal cancels the context, which is the countdown
  \<open>ctx\<close> of the state; the hard exit on a second signal and the profiling server are
  outside the model.
\<close>

definition Run :: "env \<Rightarrow> Arguments \<Rightarrow> scan_input list \<Rightarrow> state \<Rightarrow> outcome \<times> state" where
  "Run E args inps s =
     (case runCmd E args inps s of
        (Returned (Some err), s1) \<Rightarrow>
          (if errors_Is_Canceled err then (Returned None, s1) else (Returned (Some err), s1))
      | (out, s1) \<Rightarrow> (out, s1))"

section \<open>The worker pool\<close>

text \<open>
  The goroutines of \<^verbatim>\<open>processChanges\<close> and their interleavings. The walker sends
  on the semaphore channel (line 254), which blocks while the channel holds
  \<open>maxWorkerCount\<close> elements, adds one to the wait group (line 255) and starts the
  goroutine (line 256). A goroutine runs \<^verbatim>\<open>processSingleFile\<close> (line 258), receives
  from the channel (line 261) and, deferred, tells the wait group it is done (line 257).
  After the walk, \<^verbatim>\<open>wg.Wait()\<close> (line 271) blocks until the counter is zero.
\<close>

datatype walker = Walking | Acquired | Added | Waiting | Finished

record pool =
  maxWorkerCount :: nat
  pending :: "string list"
  walker :: walker
  sem :: nat
  wg :: nat
  compiling :: "string list"
  releasing :: "string list"
  exiting :: "string list"
  dispatched :: "string list"
  completed :: "string list"

text \<open>
  One atomic step of one goroutine. \<open>EndWalk\<close> is the return of
  \<^verbatim>\<open>filepath.WalkDir\<close>, at the end of the tree or at an error.
\<close>

datatype action =
    Acquire | Add | Spawn | EndWalk | Wait
  | Compiled string | Release string | WgDone string

definition pool_init :: "nat \<Rightarrow> string list \<Rightarrow> pool" where
  "pool_init n files =
     \<lparr>maxWorkerCount = n, pending = files, walker = Walking, sem = 0, wg = 0,
      compiling = [], releasing = [], exiting = [], dispatched = [], completed = []\<rparr>"

text \<open>A step that is blocked, or not the next one of its goroutine, gives \<open>None\<close>.\<close>

fun pool_step :: "action \<Rightarrow> pool \<Rightarrow> pool option" where
  "pool_step Acquire P =
     (if walker P = Walking \<and> pending P \<noteq> [] \<and> sem P < maxWorkerCount P
      then Some (P\<lparr>walker := Acquired, sem := sem P + 1\<rparr>) else None)"
| "pool_step Add P =
     (if walker P = Acquired then Some (P\<lparr>walker := Added, wg := wg P + 1\<rparr>) else None)"
| "pool_step Spawn P =
     (if walker P = Added then
        (case pending P of
           [] \<Rightarrow> None
         | f # rest \<Rightarrow>
             Some (P\<lparr>walker := Walking, pending := rest, compiling := f # compiling P,
                     dispatched := dispatched P @ [f]\<rparr>))
      else None)"
| "pool_step EndWalk P =
     (if walker P = Walking then Some (P\<lparr>walker := Waiting\<rparr>) else None)"
| "pool_step Wait P =
     (if walker P = Waiting \<and> wg P = 0 then Some (P\<lparr>walker := Finished\<rparr>) else None)"
| "pool_step (Compiled f) P =
     (if f \<in> set (compiling P)
      then Some (P\<lparr>compiling := remove1 f (compiling P), releasing := f # releasing P,
                   completed := completed P @ [f]\<rparr>)
      else None)"
| "pool_step (Release f) P =
     (if f \<in> set (releasing P) \<and> sem P > 0
      then Some (P\<lparr>releasing := remove1 f (releasing P), exiting := f # exiting P,
                   sem := sem P - 1\<rparr>)
      else None)"
| "pool_step (WgDone f) P =
     (if f \<in> set (exiting P) \<and> wg P > 0
      then Some (P\<lparr>exiting := remove1 f (exiting P), wg := wg P - 1\<rparr>)
      else None)"

fun pool_run :: "action list \<Rightarrow> pool \<Rightarrow> pool option" where
  "pool_run [] P = Some P"
| "pool_run (a # as) P = (case pool_step a P of None \<Rightarrow> None | Some Q \<Rightarrow> pool_run as Q)"

section \<open>A concrete environment\<close>

text \<open>
  An environment for running the model on concrete inputs: collaborators that succeed,
  an operating system without faults, and a comparison of versions of the form
  \<^verbatim>\<open>vMAJOR.MINOR.PATCH\<close> by their numbers.
\<close>

fun splitDots :: "string \<Rightarrow> string \<Rightarrow> string list" where
  "splitDots acc [] = [rev acc]"
| "splitDots acc (c # cs) =
     (if c = CHR ''.'' then rev acc # splitDots [] cs else splitDots (c # acc) cs)"

definition natOfDigits :: "string \<Rightarrow> nat" where
  "natOfDigits ds = foldl (\<lambda>n c. 10 * n + (of_char c - 48)) 0 ds"

fun compareNats :: "nat list \<Rightarrow> nat list \<Rightarrow> int" where
  "compareNats [] [] = 0"
| "compareNats [] (y # ys) = -1"
| "compareNats (x # xs) [] = 1"
| "compareNats (x # xs) (y # ys) =
     (if x < y then -1 else if y < x then 1 else compareNats xs ys)"

definition compareVersions :: "string \<Rightarrow> string \<Rightarrow> int" where
  "compareVersions v w =
     compareNats (map natOfDigits (splitDots [] (drop 1 v)))
                 (map natOfDigits (splitDots [] (drop 1 w)))"

definition env0 :: env where
  "env0 =
     \<lparr>templ_Version = ''v0.2.501'',
      time_Now = 0,
      parser_Parse = (\<lambda>files name. Inr (TemplateFile [] [])),
      generator_Generate = (\<lambda>t opts. Inr (''package main'', ''sourcemap'')),
      format_Source = (\<lambda>b. Inr b),
      filepath_Rel = (\<lambda>base name. drop (length base + 1) name),
      visualize_Render = (\<lambda>name templ go sm. (''html'', None)),
      read_fault = (\<lambda>p. None),
      write_fault = (\<lambda>p. None),
      create_fault = (\<lambda>p. None),
      remove_fault = (\<lambda>p. None),
      run_Run = (\<lambda>dir cmd. None),
      url_Parse = (\<lambda>u. Inr u),
      path_IsAbs = (\<lambda>p. strings_HasPrefix p ''/''),
      filepath_Abs = (\<lambda>p. if strings_HasPrefix p ''/'' then Inr p else Inr (''/work/'' @ p)),
      modfile_Parse = (\<lambda>name m. Inr (''example.com/app'', [(''github.com/a-h/templ'', ''v0.2.501'')])),
      semver_Compare = compareVersions,
      defaultWorkerCount = 4,
      backoff_Multiplier = (3, 2)\<rparr>"

definition state0 :: state where
  "state0 = \<lparr>fs = Map.empty, ctx = None, trace = [], modTimes = Map.empty,
              changesFound = 0, errs = []\<rparr>"

definition args0 :: Arguments where
  "args0 =
     \<lparr>FileName = [], Path = ''/proj'', Watch = False, Command = [], ProxyPort = 0,
      Proxy = [], WorkerCount = 0, GenerateSourceMapVisualisations = False,
      IncludeVersion = False, IncludeTimestamp = False, PPROFPort = 0,
      KeepOrphanedFiles = False\<rparr>"

text \<open>
  A project at \<^verbatim>\<open>/proj\<close> with a source file below a directory named
  \<^verbatim>\<open>vendor\<close>.
\<close>

definition tree_vendor :: "error + dirEntry" where
  "tree_vendor = Inr (DirE ''proj'' [DirE ''vendor'' [FileE ''a.templ'' (Inr 5)]])"

text \<open>
  An operating system on which the generated file \<^verbatim>\<open>/proj/a_templ.go\<close> can be
  written but not read, and a file system that holds its source.
\<close>

definition env_unreadable_go :: env where
  "env_unreadable_go =
     env0\<lparr>read_fault :=
             (\<lambda>p. if p = ''/proj/a_templ.go'' then Some (Ext ''permission denied'') else None)\<rparr>"

definition state_source :: state where
  "state_source = state0\<lparr>fs := [''/proj/a.templ'' \<mapsto> ''templ Hello() {}'']\<rparr>"

text \<open>
  Manifests that require the tool at a version older and at a version newer than the
  running one (\<^verbatim>\<open>v0.2.501\<close>), and a file system with a manifest at \<^verbatim>\<open>/proj\<close>.
\<close>

definition env_older_dep :: env where
  "env_older_dep =
     env0\<lparr>modfile_Parse :=
             (\<lambda>name m. Inr (''example.com/app'', [(''github.com/a-h/templ'', ''v0.2.1'')]))\<rparr>"

definition env_newer_dep :: env where
  "env_newer_dep =
     env0\<lparr>modfile_Parse :=
             (\<lambda>name m. Inr (''example.com/app'',
                [(''golang.org/x/mod'', ''v0.14.0''), (''github.com/a-h/templ'', ''v0.2.900'')]))\<rparr>"

definition state_gomod :: state where
  "state_gomod = state0\<lparr>fs := [''/proj/go.mod'' \<mapsto> ''module example.com/app'']\<rparr>"

section \<open>Notions for stating what a scan and a run do\<close>

text \<open>
  The time the change detector compares with: the recorded time of a file, or the zero
  time when the map has no entry (what a Go map returns for a missing key).
\<close>

definition lookupTime :: "(string \<rightharpoonup> int) \<Rightarrow> string \<Rightarrow> int" where
  "lookupTime m f = (case m f of None \<Rightarrow> 0 | Some t \<Rightarrow> t)"

definition lastModTime :: "state \<Rightarrow> string \<Rightarrow> int" where
  "lastModTime s f = lookupTime (modTimes s) f"

text \<open>
  One map of recorded times is at or ahead of another: no entry is lost, and no time
  moves backwards.
\<close>

definition map_advances :: "(string \<rightharpoonup> int) \<Rightarrow> (string \<rightharpoonup> int) \<Rightarrow> bool" where
  "map_advances m m' =
     (\<forall>f. lookupTime m f \<le> lookupTime m' f \<and>
          (case m f of None \<Rightarrow> True
           | Some t \<Rightarrow> (case m' f of None \<Rightarrow> False | Some t' \<Rightarrow> t \<le> t')))"

definition advances :: "state \<Rightarrow> state \<Rightarrow> bool" where
  "advances s s' = map_advances (modTimes s) (modTimes s')"

text \<open>The events a scan emits, and a trace that a scan has extended.\<close>

fun scan_event :: "event \<Rightarrow> bool" where
  "scan_event (Dispatch f) = True"
| "scan_event (Deleted_orphaned_file f) = True"
| "scan_event (Generated_code_ok f) = True"
| "scan_event (Generated_code_warn f d) = True"
| "scan_event e = False"

definition extends_by_scan :: "state \<Rightarrow> state \<Rightarrow> bool" where
  "extends_by_scan s s' = (\<exists>evs. trace s' = trace s @ evs \<and> list_all scan_event evs)"

text \<open>What \<open>processSingleFile\<close> adds to the trace.\<close>

definition psf_events ::
  "env \<Rightarrow> string \<Rightarrow> string \<Rightarrow> bool \<Rightarrow> generateOpt list \<Rightarrow> state \<Rightarrow> event list" where
  "psf_events E base name g opts s =
     (case snd (fst (generate E base name g opts s)) of
        Some e \<Rightarrow> []
      | None \<Rightarrow>
          if length (fst (fst (generate E base name g opts s))) > 0
          then [Generated_code_warn name (fst (fst (generate E base name g opts s)))]
          else [Generated_code_ok name])"

text \<open>The two events that start the proxy's listener and the task that opens the browser.\<close>

fun starts_proxy :: "event \<Rightarrow> bool" where
  "starts_proxy (ProxyListen port) = True"
| "starts_proxy (OpenURL port) = True"
| "starts_proxy e = False"

text \<open>
  A run in watch mode with a proxy, whose first scan finds an empty tree and whose
  second scan finds a new source file.
\<close>

definition args_watch_proxy :: Arguments where
  "args_watch_proxy = args0\<lparr>Watch := True, Proxy := ''http://localhost:8080''\<rparr>"

definition fs_gomod :: "string \<rightharpoonup> string" where
  "fs_gomod = [''/proj/go.mod'' \<mapsto> ''module example.com/app'']"

definition scans_late_change :: "scan_input list" where
  "scans_late_change =
     [(Inr (DirE ''proj'' []), fs_gomod),
      (Inr (DirE ''proj'' [FileE ''b.templ'' (Inr 7)]), fs_gomod)]"

text \<open>
  A parser that rejects \<^verbatim>\<open>/proj/a.templ\<close>, and a single scan of a tree with two
  source files.
\<close>

definition env_bad_a :: env where
  "env_bad_a =
     env0\<lparr>parser_Parse :=
             (\<lambda>files name. if name = ''/proj/a.templ'' then Inl (Ext ''syntax error'')
                            else Inr (TemplateFile [] []))\<rparr>"

definition scan_two :: "scan_input list" where
  "scan_two =
     [(Inr (DirE ''proj'' [FileE ''a.templ'' (Inr 5), FileE ''b.templ'' (Inr 7)]), fs_gomod)]"

definition state_cancelled :: state where
  "state_cancelled = state0\<lparr>ctx := Some 0\<rparr>"

text \<open>The event of a sleep of the run loop.\<close>

fun is_Sleep :: "event \<Rightarrow> bool" where
  "is_Sleep (Sleep d) = True"
| "is_Sleep e = False"




text \<open>
  What holds in every state of the pool: the channel holds one element for each goroutine
  that has not yet received from it and one for a dispatch under way; it never holds more
  than its capacity; the wait group counts the goroutines that are not done and a
  dispatch that has added itself; every dispatched file is compiled or being compiled;
  and once the wait has returned the counter is zero.
\<close>

definition pool_inv :: "pool \<Rightarrow> bool" where
  "pool_inv P =
     (sem P = length (compiling P) + length (releasing P) +
                (if walker P = Acquired \<or> walker P = Added then 1 else 0) \<and>
      sem P \<le> maxWorkerCount P \<and>
      wg P = length (compiling P) + length (releasing P) + length (exiting P) +
               (if walker P = Added then 1 else 0) \<and>
      mset (dispatched P) = mset (completed P) + mset (compiling P) \<and>
      (walker P = Finished \<longrightarrow> wg P = 0))"

text \<open>
  \<open>visits f p d s q e t\<close>: the walk of the entry \<open>d\<close> at path \<open>p\<close>, started in
  state \<open>s\<close>, calls \<open>f\<close> on the path \<open>q\<close> with the entry \<open>e\<close> in state \<open>t\<close>;
  \<open>visits_in\<close> is the same for the entries of a directory.
\<close>

inductive visits ::
    "(string \<Rightarrow> dirEntry \<Rightarrow> error option \<Rightarrow> state \<Rightarrow> error option \<times> state)
       \<Rightarrow> string \<Rightarrow> dirEntry \<Rightarrow> state \<Rightarrow> string \<Rightarrow> dirEntry \<Rightarrow> state \<Rightarrow> bool"
  and visits_in ::
    "(string \<Rightarrow> dirEntry \<Rightarrow> error option \<Rightarrow> state \<Rightarrow> error option \<times> state)
       \<Rightarrow> string \<Rightarrow> dirEntry list \<Rightarrow> state \<Rightarrow> string \<Rightarrow> dirEntry \<Rightarrow> state \<Rightarrow> bool" where
  here: "visits f p d s p d s"
| below: "f p (DirE n es) None s = (None, s1) \<Longrightarrow> visits_in f p es s1 q e t
            \<Longrightarrow> visits f p (DirE n es) s q e t"
| first: "visits f (filepath_Join p (Name d1)) d1 s q e t \<Longrightarrow> visits_in f p (d1 # ds) s q e t"
| later: "walkDir f (filepath_Join p (Name d1)) d1 s = (None, s1) \<Longrightarrow> visits_in f p ds s1 q e t
            \<Longrightarrow> visits_in f p (d1 # ds) s q e t"

text \<open>
  An orphaned generated file that the operating system refuses to remove.
\<close>

definition env_locked :: env where
  "env_locked =
     env0\<lparr>remove_fault :=
             (\<lambda>p. if p = ''/proj/x_templ.go'' then Some (Ext ''permission denied'') else None)\<rparr>"

definition state_orphan :: state where
  "state_orphan = state0\<lparr>fs := [''/proj/x_templ.go'' \<mapsto> ''package main'']\<rparr>"

definition tree_orphan :: dirEntry where
  "tree_orphan = DirE ''proj'' [FileE ''x_templ.go'' (Inr 1)]"

text \<open>
  \<open>is_Dispatch\<close> picks the compilations out of a trace. \<open>sources p d\<close> lists the source
  files that a walk of the tree \<open>d\<close> at the path \<open>p\<close> can look at, each with its
  modification time: the files named \<^verbatim>\<open>*.templ\<close> whose information can be read,
  outside the directories that \<open>shouldSkipDir\<close> excludes.
\<close>

fun is_Dispatch :: "event \<Rightarrow> bool" where
  "is_Dispatch (Dispatch f) = True"
| "is_Dispatch e = False"

fun sources :: "string \<Rightarrow> dirEntry \<Rightarrow> (string \<times> int) list"
  and sources_in :: "string \<Rightarrow> dirEntry list \<Rightarrow> (string \<times> int) list" where
  "sources p (FileE n i) =
     (case i of
        Inl e \<Rightarrow> []
      | Inr t \<Rightarrow> if strings_HasSuffix p ''.templ'' then [(p, t)] else [])"
| "sources p (DirE n es) = (if shouldSkipDir p then [] else sources_in p es)"
| "sources p (BadDirE n e) = []"
| "sources_in p [] = []"
| "sources_in p (d # ds) = sources (filepath_Join p (Name d)) d @ sources_in p ds"

text \<open>
  A tree with one source file, and the state that a first scan of it leaves.
\<close>

definition tree_b :: dirEntry where
  "tree_b = DirE ''proj'' [FileE ''b.templ'' (Inr 7)]"

definition state_after_b :: state where
  "state_after_b = processChanges env0 ''/proj'' (Inr tree_b) False [] False state0"

text \<open>
  A tree whose one source file does not parse in \<open>env_bad_a\<close>, and the state that a
  first scan of it leaves.
\<close>

definition tree_a :: dirEntry where
  "tree_a = DirE ''proj'' [FileE ''a.templ'' (Inr 5)]"

definition state_after_a :: state where
  "state_after_a = processChanges env_bad_a ''/proj'' (Inr tree_a) False [] False state0"


text \<open>
  The delays that are due in a row of passes, given by the numbers of changed files that
  their scans found: none in the first pass, and in every later pass the next delay of the
  scheduler, which is reset first when the scan found changes. The scheduler is carried
  from one pass to the next.
\<close>

fun loop_delays :: "ExponentialBackOff \<Rightarrow> bool \<Rightarrow> nat list \<Rightarrow> nat list" where
  "loop_delays b firstRunComplete [] = []"
| "loop_delays b firstRunComplete (n # ns) =
     (if firstRunComplete then
        fst (backoff_NextBackOff (if 0 < n then backoff_Reset b else b))
          # loop_delays (snd (backoff_NextBackOff (if 0 < n then backoff_Reset b else b))) True ns
      else loop_delays b True ns)"



section \<open>Directory exclusion: what the walk skips\<close>

text \<open>
  C2. The claim is that every directory below the root named \<^verbatim>\<open>vendor\<close> or
  \<^verbatim>\<open>node_modules\<close> is skipped with all that it holds. \<open>shouldSkipDir\<close> compares
  these two names with the whole path that the walk passes, which starts with the
  root, so the comparison fails: for the root \<^verbatim>\<open>/proj\<close> the directory
  \<^verbatim>\<open>/proj/vendor\<close> is not skipped, and the source file below it is recorded, counted
  as changed and compiled.
\<close>

theorem C2_vendor_subtree_is_scanned:
  "shouldSkipDir ''/proj/vendor'' = False \<and>
   changesFound (processChanges env0 ''/proj'' tree_vendor False [] False state0) = 1 \<and>
   modTimes (processChanges env0 ''/proj'' tree_vendor False [] False state0)
     ''/proj/vendor/a.templ'' = Some 5 \<and>
   fs (processChanges env0 ''/proj'' tree_vendor False [] False state0)
     ''/proj/vendor/a_templ.go'' = Some ''package main''"
  by code_simp

section \<open>The sourcemap visualisation\<close>

text \<open>
  C3. The claim is that a failure of either read-back makes the pipeline of the file
  return an error. When the read of the generated file fails and the read of the source
  succeeds, \<open>generateSourceMapVisualisation\<close> returns the error of the other read,
  which is none: \<open>generate\<close> and \<open>processSingleFile\<close> report success, and no
  visualisation is written. The generated file stays on disk.
\<close>

theorem C3_go_read_failure_returns_no_error:
  "os_ReadFile env_unreadable_go
     (snd (generate env_unreadable_go ''/proj'' ''/proj/a.templ'' True [] state_source))
     ''/proj/a_templ.go'' = ([], Some (Ext ''permission denied'')) \<and>
   fst (generate env_unreadable_go ''/proj'' ''/proj/a.templ'' True [] state_source)
     = ([], None) \<and>
   fst (processSingleFile env_unreadable_go ''/proj'' ''/proj/a.templ'' True [] state_source)
     = None \<and>
   fs (snd (generate env_unreadable_go ''/proj'' ''/proj/a.templ'' True [] state_source))
     ''/proj/a_templ_sourcemap.html'' = None \<and>
   fs (snd (generate env_unreadable_go ''/proj'' ''/proj/a.templ'' True [] state_source))
     ''/proj/a_templ.go'' = Some ''package main''"
  by code_simp

section \<open>The version gate: which manifests pass\<close>

text \<open>
  The \<^verbatim>\<open>range\<close> loop returns at the first requirement of the tool, which is the one
  \<open>map_of\<close> finds.
\<close>

lemma requireLoop_map_of:
  "requireLoop E require =
     (case map_of require ''github.com/a-h/templ'' of
        None \<Rightarrow> None
      | Some v \<Rightarrow>
          Some (if semver_Compare E v (templ_Version E) < 0 then
                  Some (Errorf (''generator '' @ templ_Version E @
                    '' is newer than templ version '' @ v @
                    '' found in go.mod file, consider running `go get -u github.com/a-h/templ` to upgrade''))
                else if semver_Compare E v (templ_Version E) > 0 then
                  Some (Errorf (''generator '' @ templ_Version E @
                    '' is older than templ version '' @ v @
                    '' found in go.mod file, consider upgrading templ CLI''))
                else None))"
  by (induction require) (auto simp: Let_def)

lemma loop_at_manifest:
  assumes "fs s (filepath_Join dir ''go.mod'') = Some m"
    and "read_fault E (filepath_Join dir ''go.mod'') = None"
    and "modfile_Parse E (filepath_Join dir ''go.mod'') (goVersionRegexp_ReplaceAll m)
           = Inr (modulePath, require)"
  shows "checkTemplVersion_loop E s dir =
     (if modulePath = ''github.com/a-h/templ'' then Some None
      else case requireLoop E require of Some r \<Rightarrow> Some r
           | None \<Rightarrow> checkTemplVersion_loop E s dir)"
  using assms
  by (subst checkTemplVersion_loop.simps) (simp add: os_Stat_def os_ReadFile_def Let_def)

lemma loop_move_up:
  assumes "fs s (filepath_Join dir ''go.mod'') = None" and "filepath_Dir dir \<noteq> dir"
  shows "checkTemplVersion_loop E s dir = checkTemplVersion_loop E s (filepath_Dir dir)"
  using assms
  by (subst checkTemplVersion_loop.simps) (simp add: os_Stat_def os_IsNotExist_def Let_def)

lemma loop_walks_up:
  assumes "\<forall>j<k. fs s (filepath_Join ((filepath_Dir ^^ j) dir0) ''go.mod'') = None \<and>
                  filepath_Dir ((filepath_Dir ^^ j) dir0) \<noteq> (filepath_Dir ^^ j) dir0"
  shows "checkTemplVersion_loop E s dir0 = checkTemplVersion_loop E s ((filepath_Dir ^^ k) dir0)"
  using assms
proof (induction k)
  case 0
  then show ?case by simp
next
  case (Suc k)
  then have "checkTemplVersion_loop E s dir0 =
             checkTemplVersion_loop E s ((filepath_Dir ^^ k) dir0)"
    by simp
  also have "\<dots> = checkTemplVersion_loop E s (filepath_Dir ((filepath_Dir ^^ k) dir0))"
    using Suc.prems by (intro loop_move_up) auto
  finally show ?case by simp
qed

text \<open>
  C1, as amended. The gate walks up from the absolute path \<open>dir0\<close> of its argument,
  through \<open>k\<close> directories without a manifest, to a manifest that can be read and
  parsed. If the manifest's module path is the tool's, the gate passes. Otherwise, if
  the manifest requires the tool at version \<open>v\<close>: when \<open>v\<close> is less than the running
  version the gate fails and asks to upgrade the dependency with \<^verbatim>\<open>go get -u\<close>; when
  \<open>v\<close> is greater it fails and asks to upgrade the CLI; when the two are equal it
  passes. In every one of these cases the gate returns.
\<close>

theorem C1_version_gate:
  assumes "filepath_Abs E path = Inr dir0"
    and "\<forall>j<k. fs s (filepath_Join ((filepath_Dir ^^ j) dir0) ''go.mod'') = None \<and>
                  filepath_Dir ((filepath_Dir ^^ j) dir0) \<noteq> (filepath_Dir ^^ j) dir0"
    and "fs s (filepath_Join ((filepath_Dir ^^ k) dir0) ''go.mod'') = Some m"
    and "read_fault E (filepath_Join ((filepath_Dir ^^ k) dir0) ''go.mod'') = None"
    and "modfile_Parse E (filepath_Join ((filepath_Dir ^^ k) dir0) ''go.mod'')
           (goVersionRegexp_ReplaceAll m) = Inr (modulePath, require)"
  shows "(modulePath = ''github.com/a-h/templ'' \<longrightarrow> checkTemplVersion E s path = Some None) \<and>
         (modulePath \<noteq> ''github.com/a-h/templ'' \<and>
          map_of require ''github.com/a-h/templ'' = Some v \<longrightarrow>
            checkTemplVersion E s path =
              Some (if semver_Compare E v (templ_Version E) < 0 then
                      Some (Errorf (''generator '' @ templ_Version E @
                        '' is newer than templ version '' @ v @
                        '' found in go.mod file, consider running `go get -u github.com/a-h/templ` to upgrade''))
                    else if semver_Compare E v (templ_Version E) > 0 then
                      Some (Errorf (''generator '' @ templ_Version E @
                        '' is older than templ version '' @ v @
                        '' found in go.mod file, consider upgrading templ CLI''))
                    else None))"
proof -
  have up: "checkTemplVersion E s path = checkTemplVersion_loop E s ((filepath_Dir ^^ k) dir0)"
    using assms(1) loop_walks_up[OF assms(2)] by (simp add: checkTemplVersion_def)
  note at = loop_at_manifest[OF assms(3,4,5)]
  show ?thesis
    unfolding up
    by (subst at, subst at) (simp add: requireLoop_map_of)
qed

text \<open>
  The theorem at a manifest one directory above the path, which requires a version greater
  than the running one: the gate asks to upgrade the CLI.
\<close>

theorem C1_version_gate_witness:
  "semver_Compare env_newer_dep ''v0.2.900'' (templ_Version env_newer_dep) > 0 \<and>
   checkTemplVersion env_newer_dep state_gomod ''/proj/sub'' =
     Some (Some (Errorf ''generator v0.2.501 is older than templ version v0.2.900 found in go.mod file, consider upgrading templ CLI''))"
proof -
  have a: "filepath_Abs env_newer_dep ''/proj/sub'' = Inr ''/proj/sub''" by code_simp
  have f1: "fs state_gomod (filepath_Join ''/proj/sub'' ''go.mod'') = None" by code_simp
  have f2: "filepath_Dir ''/proj/sub'' = ''/proj''" by code_simp
  have b: "\<forall>j<Suc 0.
             fs state_gomod (filepath_Join ((filepath_Dir ^^ j) ''/proj/sub'') ''go.mod'') = None \<and>
             filepath_Dir ((filepath_Dir ^^ j) ''/proj/sub'') \<noteq> (filepath_Dir ^^ j) ''/proj/sub''"
    by (simp add: f1 f2)
  have c: "fs state_gomod (filepath_Join ((filepath_Dir ^^ Suc 0) ''/proj/sub'') ''go.mod'')
             = Some ''module example.com/app''"
    unfolding funpow.simps o_apply id_apply f2 by code_simp
  have d: "read_fault env_newer_dep
             (filepath_Join ((filepath_Dir ^^ Suc 0) ''/proj/sub'') ''go.mod'') = None"
    by (simp add: env_newer_dep_def env0_def)
  have e: "modfile_Parse env_newer_dep
             (filepath_Join ((filepath_Dir ^^ Suc 0) ''/proj/sub'') ''go.mod'')
             (goVersionRegexp_ReplaceAll ''module example.com/app'')
           = Inr (''example.com/app'',
                [(''golang.org/x/mod'', ''v0.14.0''), (''github.com/a-h/templ'', ''v0.2.900'')])"
    by (simp add: env_newer_dep_def env0_def)
  have v: "templ_Version env_newer_dep = ''v0.2.501''"
    by (simp add: env_newer_dep_def env0_def)
  have cmp: "semver_Compare env_newer_dep ''v0.2.900'' ''v0.2.501'' = 1" by code_simp
  show ?thesis
    using C1_version_gate[OF a b c d e, of "''v0.2.900''"] by (simp add: v cmp)
qed

text \<open>
  The claim as it is written fails: a manifest that requires a version less than the
  running one does not pass the gate.
\<close>

theorem C1_older_dependency_fails:
  "semver_Compare env_older_dep ''v0.2.1'' (templ_Version env_older_dep) < 0 \<and>
   checkTemplVersion env_older_dep state_gomod ''/proj'' =
     Some (Some (Errorf ''generator v0.2.501 is newer than templ version v0.2.1 found in go.mod file, consider running `go get -u github.com/a-h/templ` to upgrade''))"
  by code_simp

section \<open>What the parts of a scan leave unchanged\<close>

lemma ctx_Err_frame [simp]:
  "fs (snd (ctx_Err s)) = fs s"
  "trace (snd (ctx_Err s)) = trace s"
  "modTimes (snd (ctx_Err s)) = modTimes s"
  "changesFound (snd (ctx_Err s)) = changesFound s"
  "errs (snd (ctx_Err s)) = errs s"
  by (simp_all add: ctx_Err_def split: option.splits nat.splits)

lemma emit_frame [simp]:
  "fs (emit e s) = fs s"
  "ctx (emit e s) = ctx s"
  "trace (emit e s) = trace s @ [e]"
  "modTimes (emit e s) = modTimes s"
  "changesFound (emit e s) = changesFound s"
  "errs (emit e s) = errs s"
  by (simp_all add: emit_def)

lemma os_WriteFile_frame [simp]:
  "trace (snd (os_WriteFile E p d s)) = trace s"
  "modTimes (snd (os_WriteFile E p d s)) = modTimes s"
  "changesFound (snd (os_WriteFile E p d s)) = changesFound s"
  "errs (snd (os_WriteFile E p d s)) = errs s"
  by (simp_all add: os_WriteFile_def split: option.splits)

lemma os_Create_frame [simp]:
  "trace (snd (os_Create E p s)) = trace s"
  "modTimes (snd (os_Create E p s)) = modTimes s"
  "changesFound (snd (os_Create E p s)) = changesFound s"
  "errs (snd (os_Create E p s)) = errs s"
  by (simp_all add: os_Create_def split: option.splits)

lemma os_Remove_frame [simp]:
  "trace (snd (os_Remove E p s)) = trace s"
  "modTimes (snd (os_Remove E p s)) = modTimes s"
  "changesFound (snd (os_Remove E p s)) = changesFound s"
  "errs (snd (os_Remove E p s)) = errs s"
  by (simp_all add: os_Remove_def split: option.splits)

lemma gsmv_frame [simp]:
  "trace (snd (generateSourceMapVisualisation E a b c s)) = trace s"
  "modTimes (snd (generateSourceMapVisualisation E a b c s)) = modTimes s"
  "changesFound (snd (generateSourceMapVisualisation E a b c s)) = changesFound s"
  "errs (snd (generateSourceMapVisualisation E a b c s)) = errs s"
  by (simp_all add: generateSourceMapVisualisation_def Let_def case_prod_beta
        split: option.splits)

lemma generate_frame [simp]:
  "trace (snd (generate E base name g opts s)) = trace s"
  "modTimes (snd (generate E base name g opts s)) = modTimes s"
  "changesFound (snd (generate E base name g opts s)) = changesFound s"
  "errs (snd (generate E base name g opts s)) = errs s"
  by (simp_all add: generate_def Let_def case_prod_beta
        split: option.splits sum.splits)

lemma processSingleFile_frame [simp]:
  "modTimes (snd (processSingleFile E base name g opts s)) = modTimes s"
  "changesFound (snd (processSingleFile E base name g opts s)) = changesFound s"
  "errs (snd (processSingleFile E base name g opts s)) = errs s"
  by (simp_all add: processSingleFile_def Let_def case_prod_beta
        split: option.splits sum.splits)

lemma processSingleFile_trace:
  "trace (snd (processSingleFile E base name g opts s)) = trace s \<or>
   trace (snd (processSingleFile E base name g opts s)) = trace s @ [Generated_code_ok name] \<or>
   (\<exists>diag. trace (snd (processSingleFile E base name g opts s))
             = trace s @ [Generated_code_warn name diag])"
  by (simp add: processSingleFile_def Let_def case_prod_beta
        split: option.splits sum.splits)


lemma walk_rel:
  assumes step: "\<And>p d e s. R s (snd (f p d e s))"
    and refl: "\<And>s. R s s"
    and trans: "\<And>a b c. R a b \<Longrightarrow> R b c \<Longrightarrow> R a c"
  shows "R s (snd (walkDir f p d s))" and "R s (snd (walkEntries f p es s))"
  using step
proof (induction f p d s and f p es s rule: walkDir_walkEntries.induct)
  case (1 f p n i s)
  then show ?case by simp
next
  case (2 f p n es s)
  obtain r s1 where r: "f p (DirE n es) None s = (r, s1)" by (cases "f p (DirE n es) None s")
  have a: "R s s1" using 2(2)[of s p "DirE n es" None] r by simp
  show ?case
  proof (cases r)
    case None
    with 2 r have "R s1 (snd (walkEntries f p es s1))" by simp
    with a show ?thesis using r None by (auto intro: trans)
  next
    case (Some e)
    with a r show ?thesis by simp
  qed
next
  case (3 f p n rerr s)
  obtain r s1 where r: "f p (BadDirE n rerr) None s = (r, s1)"
    by (cases "f p (BadDirE n rerr) None s")
  obtain r2 s2 where r2: "f p (BadDirE n rerr) (Some rerr) s1 = (r2, s2)"
    by (cases "f p (BadDirE n rerr) (Some rerr) s1")
  have a: "R s s1" using 3[of s p "BadDirE n rerr" None] r by simp
  have b: "R s1 s2" using 3[of s1 p "BadDirE n rerr" "Some rerr"] r2 by simp
  from a b have "R s s2" by (rule trans)
  with a r r2 show ?case by (cases r; cases r2) simp_all
next
  case (4 f p s)
  show ?case by (simp add: refl)
next
  case (5 f p d1 ds s)
  obtain r s1 where r: "walkDir f (filepath_Join p (Name d1)) d1 s = (r, s1)"
    by (cases "walkDir f (filepath_Join p (Name d1)) d1 s")
  have a: "R s s1" using 5(1)[OF 5(3)] r by simp
  show ?case
  proof (cases r)
    case None
    with 5(2)[OF _ _ 5(3)] r have "R s1 (snd (walkEntries f p ds s1))" by simp
    with a show ?thesis using r None by (auto intro: trans)
  next
    case (Some e)
    with a r show ?thesis by simp
  qed
qed

lemma advances_refl: "advances s s"
  by (simp add: advances_def map_advances_def split: option.splits)

lemma advances_trans: "advances a b \<Longrightarrow> advances b c \<Longrightarrow> advances a c"
  unfolding advances_def map_advances_def
  apply (intro allI conjI)
   apply (meson order_trans)
  apply (simp split: option.splits)
  by (metis option.distinct(1) option.inject order_trans)

lemma advances_same: "modTimes s' = modTimes s \<Longrightarrow> advances s s'"
  by (simp add: advances_def map_advances_def split: option.splits)

lemma extends_refl: "extends_by_scan s s"
  by (simp add: extends_by_scan_def)

lemma extends_trans: "extends_by_scan a b \<Longrightarrow> extends_by_scan b c \<Longrightarrow> extends_by_scan a c"
  by (auto simp: extends_by_scan_def)

lemma extends_same: "trace s' = trace s \<Longrightarrow> extends_by_scan s s'"
  by (simp add: extends_by_scan_def)

lemma walkFn_modTimes:
  "modTimes (snd (walkFn E path g opts keep fileName info err s)) = modTimes s \<or>
   (\<exists>t. Info info = Inr t \<and> lastModTime s fileName < t \<and>
        modTimes (snd (walkFn E path g opts keep fileName info err s))
          = (modTimes s)(fileName \<mapsto> t))"
  by (simp add: walkFn_def Let_def case_prod_beta lastModTime_def lookupTime_def
        split: option.splits sum.splits)

lemma psf_trace_eq [simp]:
  "trace (snd (processSingleFile E base name g opts s))
     = trace s @ psf_events E base name g opts s"
  by (simp add: processSingleFile_def psf_events_def case_prod_beta split: option.splits)

lemma psf_events_scan [simp]: "list_all scan_event (psf_events E base name g opts s)"
  by (simp add: psf_events_def split: option.splits)

lemma walkFn_extends:
  "extends_by_scan s (snd (walkFn E path g opts keep fileName info err s))"
  by (simp add: walkFn_def Let_def case_prod_beta extends_by_scan_def
        split: option.splits sum.splits)

lemma walkFn_advances:
  "advances s (snd (walkFn E path g opts keep fileName info err s))"
proof -
  let ?s' = "snd (walkFn E path g opts keep fileName info err s)"
  from walkFn_modTimes[of E path g opts keep fileName info err s]
  consider "modTimes ?s' = modTimes s"
    | t where "lastModTime s fileName < t" "modTimes ?s' = (modTimes s)(fileName \<mapsto> t)"
    by blast
  then show ?thesis
  proof cases
    case 1
    then show ?thesis by (rule advances_same)
  next
    case 2
    then show ?thesis
      by (simp add: advances_def map_advances_def lastModTime_def lookupTime_def
            split: option.splits)
  qed
qed

lemma walk_advances:
  "advances s (snd (walkDir (walkFn E path g opts keep) p d s))"
  "advances s (snd (walkEntries (walkFn E path g opts keep) p es s))"
  by (rule walk_rel[where R = advances, OF walkFn_advances advances_refl advances_trans];
      assumption)+

lemma walk_extends:
  "extends_by_scan s (snd (walkDir (walkFn E path g opts keep) p d s))"
  "extends_by_scan s (snd (walkEntries (walkFn E path g opts keep) p es s))"
  by (rule walk_rel[where R = extends_by_scan, OF walkFn_extends extends_refl extends_trans];
      assumption)+

lemma WalkDir_rel:
  assumes step: "\<And>p d e s. R s (snd (f p d e s))"
    and refl: "\<And>s. R s s"
    and trans: "\<And>a b c. R a b \<Longrightarrow> R b c \<Longrightarrow> R a c"
  shows "R s (snd (filepath_WalkDir root rootEntry f s))"
proof (cases rootEntry)
  case (Inl lerr)
  then show ?thesis
    using step[of s root "FileE [] (Inl lerr)" "Some lerr"]
    by (simp add: filepath_WalkDir_def case_prod_beta split: option.splits)
next
  case (Inr d)
  then show ?thesis
    using walk_rel(1)[of R f s root d, OF step refl trans]
    by (simp add: filepath_WalkDir_def case_prod_beta split: option.splits)
qed

lemma processChanges_trace:
  "extends_by_scan s (processChanges E path rootEntry g opts keep s)"
proof -
  let ?s0 = "s\<lparr>changesFound := 0, errs := []\<rparr>"
  have "extends_by_scan ?s0 (snd (filepath_WalkDir path rootEntry (walkFn E path g opts keep) ?s0))"
    by (rule WalkDir_rel[where R = extends_by_scan, OF walkFn_extends extends_refl extends_trans])
  then show ?thesis
    by (simp add: processChanges_def extends_by_scan_def case_prod_beta split: option.splits)
qed

lemma processChanges_modTimes:
  "modTimes (processChanges E path rootEntry g opts keep s) =
   modTimes (snd (filepath_WalkDir path rootEntry (walkFn E path g opts keep)
                    (s\<lparr>changesFound := 0, errs := []\<rparr>)))"
  by (simp add: processChanges_def case_prod_beta split: option.splits)

lemma processChanges_advances:
  "advances s (processChanges E path rootEntry g opts keep s)"
proof -
  let ?s0 = "s\<lparr>changesFound := 0, errs := []\<rparr>"
  have "advances ?s0 (snd (filepath_WalkDir path rootEntry (walkFn E path g opts keep) ?s0))"
    by (rule WalkDir_rel[where R = advances, OF walkFn_advances advances_refl advances_trans])
  then show ?thesis
    by (simp add: advances_def processChanges_modTimes)
qed

lemma scan_events_no_start: "list_all scan_event evs \<Longrightarrow> filter starts_proxy evs = []"
proof (induction evs)
  case Nil
  then show ?case by simp
next
  case (Cons e evs)
  then show ?case by (cases e) simp_all
qed

lemma processChanges_starts [simp]:
  "filter starts_proxy (trace (processChanges E path rootEntry g opts keep s))
     = filter starts_proxy (trace s)"
  using processChanges_trace[of s E path rootEntry g opts keep]
  by (auto simp: extends_by_scan_def scan_events_no_start)


lemma reportChanges_starts:
  "filter starts_proxy (trace (reportChanges E args p frc n es s)) =
     filter starts_proxy (trace s) @
       (if \<not> frc \<and> p then [ProxyListen (ProxyPort args), OpenURL (ProxyPort args)] else [])"
  by (simp add: reportChanges_def Let_def split: option.splits)

lemma sleepBackOff_starts [simp]:
  "filter starts_proxy (trace (snd (sleepBackOff bo frc n s))) = filter starts_proxy (trace s)"
  by (simp add: sleepBackOff_def Let_def case_prod_beta)

section \<open>The proxy and the browser are started in the first pass only\<close>

lemma afterScan_starts:
  "filter starts_proxy (trace (snd (afterScan E args p bo frc s1))) =
     filter starts_proxy (trace s1) @
       (if \<not> frc \<and> p \<and> changesFound s1 > 0 \<and>
           \<not> (length (errs s1) > 0 \<and> (errors_Is_Canceled (hd (errs s1)) \<or> \<not> Watch args))
        then [ProxyListen (ProxyPort args), OpenURL (ProxyPort args)] else [])"
proof -
  let ?s2 = "if length (errs s1) > 0 then emit (Error_processing_path (errs s1)) s1 else s1"
  let ?s3 = "if changesFound s1 > 0
             then reportChanges E args p frc (changesFound s1) (errs s1) ?s2 else ?s2"
  have s2: "filter starts_proxy (trace ?s2) = filter starts_proxy (trace s1)" by simp
  have s3: "filter starts_proxy (trace ?s3) = filter starts_proxy (trace s1) @
       (if \<not> frc \<and> p \<and> changesFound s1 > 0
        then [ProxyListen (ProxyPort args), OpenURL (ProxyPort args)] else [])"
    by (simp add: reportChanges_starts)
  show ?thesis
  proof (cases "length (errs s1) > 0 \<and> (errors_Is_Canceled (hd (errs s1)) \<or> \<not> Watch args)")
    case True
    then show ?thesis by (auto simp: afterScan_def)
  next
    case False
    then have a: "afterScan E args p bo frc s1 =
        (case checkTemplVersion E ?s3 (Path args) of
              None \<Rightarrow> (Inl Diverged, ?s3)
            | Some verr \<Rightarrow>
                (let s4 = (case verr of Some e \<Rightarrow> emit (Version_check_failed e) ?s3
                                       | None \<Rightarrow> ?s3)
                 in case sleepBackOff bo frc (changesFound s1) s4 of
                      (bo1, s5) \<Rightarrow> (Inr bo1, s5)))"
      unfolding afterScan_def Let_def by auto
    show ?thesis
    proof (cases "checkTemplVersion E ?s3 (Path args)")
      case None
      with a have "snd (afterScan E args p bo frc s1) = ?s3" by simp
      with s3 False show ?thesis by simp
    next
      case (Some verr)
      with a have "filter starts_proxy (trace (snd (afterScan E args p bo frc s1)))
                   = filter starts_proxy (trace ?s3)"
        by (cases verr) (simp_all add: case_prod_beta Let_def)
      with s3 False show ?thesis by simp
    qed
  qed
qed


lemma loopBody_starts:
  "filter starts_proxy (trace (snd (loopBody E args p opts bo frc inp s))) =
     filter starts_proxy (trace s) @
       (if \<not> frc \<and> p \<and>
           changesFound (processChanges E (Path args) (fst inp)
              (GenerateSourceMapVisualisations args) opts (KeepOrphanedFiles args)
              (s\<lparr>fs := snd inp\<rparr>)) > 0 \<and>
           \<not> (length (errs (processChanges E (Path args) (fst inp)
                   (GenerateSourceMapVisualisations args) opts (KeepOrphanedFiles args)
                   (s\<lparr>fs := snd inp\<rparr>))) > 0 \<and>
              (errors_Is_Canceled (hd (errs (processChanges E (Path args) (fst inp)
                   (GenerateSourceMapVisualisations args) opts (KeepOrphanedFiles args)
                   (s\<lparr>fs := snd inp\<rparr>)))) \<or> \<not> Watch args))
        then [ProxyListen (ProxyPort args), OpenURL (ProxyPort args)] else [])"
  unfolding loopBody_def afterScan_starts by simp

lemma runCmd_loop_later_starts:
  "filter starts_proxy (trace (snd (runCmd_loop E args p opts bo True inps s)))
     = filter starts_proxy (trace s)"
proof (induction inps arbitrary: bo s)
  case Nil
  then show ?case by simp
next
  case (Cons inp inps)
  show ?case
  proof (cases "loopBody E args p opts bo True inp s")
    case (Pair r s1)
    have s1: "filter starts_proxy (trace s1) = filter starts_proxy (trace s)"
      using loopBody_starts[of E args p opts bo True inp s] Pair by simp
    show ?thesis
    proof (cases r)
      case (Inl out)
      with Pair s1 show ?thesis by simp
    next
      case (Inr bo1)
      with Pair s1 Cons.IH[of bo1 s1] show ?thesis by simp
    qed
  qed
qed

text \<open>
  C4, as amended. The events that start the proxy's listener and the task that opens the
  browser are counted in the trace of the run loop. A loop that has completed its first
  pass adds none, whatever the later scans find. The first pass adds each of them once
  when a proxy is configured, its scan found changes and the pass did not end the run
  (a first error that is a cancellation, or any error outside watch mode), and none
  otherwise: when the first scan finds no change, the two are never started.
\<close>

theorem C4_proxy_started_in_first_pass_only:
  "filter starts_proxy (trace (snd (runCmd_loop E args p opts bo True inps s)))
     = filter starts_proxy (trace s) \<and>
   filter starts_proxy (trace (snd (runCmd_loop E args p opts bo False [] s)))
     = filter starts_proxy (trace s) \<and>
   filter starts_proxy (trace (snd (runCmd_loop E args p opts bo False (inp # inps) s)))
     = filter starts_proxy (trace s) @
       (if p \<and>
           changesFound (processChanges E (Path args) (fst inp)
              (GenerateSourceMapVisualisations args) opts (KeepOrphanedFiles args)
              (s\<lparr>fs := snd inp\<rparr>)) > 0 \<and>
           \<not> (length (errs (processChanges E (Path args) (fst inp)
                   (GenerateSourceMapVisualisations args) opts (KeepOrphanedFiles args)
                   (s\<lparr>fs := snd inp\<rparr>))) > 0 \<and>
              (errors_Is_Canceled (hd (errs (processChanges E (Path args) (fst inp)
                   (GenerateSourceMapVisualisations args) opts (KeepOrphanedFiles args)
                   (s\<lparr>fs := snd inp\<rparr>)))) \<or> \<not> Watch args))
        then [ProxyListen (ProxyPort args), OpenURL (ProxyPort args)] else [])"
proof (intro conjI)
  show "filter starts_proxy (trace (snd (runCmd_loop E args p opts bo True inps s)))
     = filter starts_proxy (trace s)"
    by (rule runCmd_loop_later_starts)
  show "filter starts_proxy (trace (snd (runCmd_loop E args p opts bo False [] s)))
     = filter starts_proxy (trace s)"
    by simp
  show "filter starts_proxy (trace (snd (runCmd_loop E args p opts bo False (inp # inps) s)))
     = filter starts_proxy (trace s) @
       (if p \<and>
           changesFound (processChanges E (Path args) (fst inp)
              (GenerateSourceMapVisualisations args) opts (KeepOrphanedFiles args)
              (s\<lparr>fs := snd inp\<rparr>)) > 0 \<and>
           \<not> (length (errs (processChanges E (Path args) (fst inp)
                   (GenerateSourceMapVisualisations args) opts (KeepOrphanedFiles args)
                   (s\<lparr>fs := snd inp\<rparr>))) > 0 \<and>
              (errors_Is_Canceled (hd (errs (processChanges E (Path args) (fst inp)
                   (GenerateSourceMapVisualisations args) opts (KeepOrphanedFiles args)
                   (s\<lparr>fs := snd inp\<rparr>)))) \<or> \<not> Watch args))
        then [ProxyListen (ProxyPort args), OpenURL (ProxyPort args)] else [])"
  proof (cases "loopBody E args p opts bo False inp s")
    case (Pair r s1)
    note st = loopBody_starts[of E args p opts bo False inp s, unfolded Pair snd_conv]
    show ?thesis
    proof (cases r)
      case (Inl out)
      with Pair st show ?thesis by simp
    next
      case (Inr bo1)
      with Pair st runCmd_loop_later_starts[of E args p opts bo1 inps s1]
      show ?thesis by simp
    qed
  qed
qed

text \<open>
  The claim as it is written fails: in watch mode with a proxy, the first scan finds no
  change and the second scan finds one changed file; the reload event is sent, and
  neither the listener nor the browser task is ever started.
\<close>

theorem C4_first_changes_in_second_scan:
  "fst (runCmd env0 args_watch_proxy scans_late_change state0) = Unfinished \<and>
   trace (snd (runCmd env0 args_watch_proxy scans_late_change state0)) =
     [Processing_path ''/proj'', Dispatch ''/proj/b.templ'',
      Generated_code_ok ''/proj/b.templ'', Summary_success 1 0,
      SendSSE ''message'' ''reload'', Sleep 500] \<and>
   filter starts_proxy (trace (snd (runCmd env0 args_watch_proxy scans_late_change state0)))
     = []"
  by code_simp

section \<open>Cancellation at the boundary of the run\<close>

lemma walkFn_cancelled:
  "ctx s = Some 0 \<Longrightarrow> walkFn E path g opts keep fileName info None s = (Some Canceled, s)"
  by (simp add: walkFn_def ctx_Err_def)

lemma processChanges_cancelled:
  assumes "ctx s = Some 0"
  shows "errs (processChanges E path (Inr d) g opts keep s) = [Canceled]"
proof -
  let ?s0 = "s\<lparr>changesFound := 0, errs := []\<rparr>"
  have c: "ctx ?s0 = Some 0" using assms by simp
  have "walkDir (walkFn E path g opts keep) path d ?s0 = (Some Canceled, ?s0)"
    by (cases d) (simp_all add: walkFn_cancelled[OF c])
  then show ?thesis
    by (simp add: processChanges_def filepath_WalkDir_def)
qed

lemma afterScan_cancelled:
  "errs s1 \<noteq> [] \<Longrightarrow> errors_Is_Canceled (hd (errs s1)) \<Longrightarrow>
   afterScan E args p bo frc s1 = (Inl (Returned (Some (hd (errs s1)))), s1)"
  by (simp add: afterScan_def)

lemma first_pass_cancelled:
  assumes "ctx s = Some 0"
  shows "fst (runCmd_loop E args p opts bo False ((Inr d, files) # inps) s)
           = Returned (Some Canceled)"
proof -
  have c: "ctx (s\<lparr>fs := files\<rparr>) = Some 0" using assms by simp
  note e = processChanges_cancelled[OF c, of E "Path args" d
             "GenerateSourceMapVisualisations args" opts "KeepOrphanedFiles args"]
  show ?thesis
    by (simp add: loopBody_def afterScan_cancelled e)
qed

lemma Run_of_cancelled:
  "fst (runCmd E args inps s) = Returned (Some e) \<Longrightarrow> errors_Is_Canceled e \<Longrightarrow>
   fst (Run E args inps s) = Returned None"
  by (cases "runCmd E args inps s") (simp add: Run_def)

lemma Run_never_cancelled:
  "fst (Run E args inps s) = Returned (Some e) \<Longrightarrow> \<not> errors_Is_Canceled e"
  by (cases "runCmd E args inps s")
     (auto simp: Run_def split: outcome.splits option.splits if_splits)

lemma single_file_cancelled:
  assumes "ctx s = Some 0" "FileName args \<noteq> []" "\<not> Watch args"
  shows "fst (runCmd E args inps s) = Returned (Some Canceled)"
  using assms
  by (simp add: runCmd_def Let_def processSingleFile_def generate_def ctx_Err_def
        case_prod_beta)

lemma runCmd_tree_mode:
  assumes "FileName args = []"
    and "Proxy args = [] \<or> url_Parse E (Proxy args) = Inr target"
    and "path_IsAbs E (Path args) \<or> filepath_Abs E (Path args) = Inr a"
  shows "\<exists>args' p opts.
           Watch args' = Watch args \<and>
           runCmd E args inps s =
             runCmd_loop E args' p opts
               ((backoff_NewExponentialBackOff (backoff_Multiplier E))
                  \<lparr>InitialInterval := 500, MaxInterval := 3000, MaxElapsedTime := 0\<rparr>)
               False inps (emit (Processing_path (Path args')) s)"
proof -
  from assms(2) obtain tg where
    u: "(if Proxy args \<noteq> [] then url_Parse E (Proxy args) else Inr []) = Inr tg"
    by (cases "Proxy args = []") auto
  define args2 where
    "args2 = (let args1 = (if ProxyPort args = 0 then args\<lparr>ProxyPort := 7331\<rparr> else args)
              in if WorkerCount args1 = 0
                 then args1\<lparr>WorkerCount := defaultWorkerCount E\<rparr> else args1)"
  have p2: "Path args2 = Path args" "Watch args2 = Watch args"
    by (simp_all add: args2_def Let_def)
  from assms(3) obtain ap where
    ab: "(if \<not> path_IsAbs E (Path args2) then filepath_Abs E (Path args2)
          else Inr (Path args2)) = Inr ap"
    unfolding p2 by (cases "path_IsAbs E (Path args)") auto
  have "runCmd E args inps s =
          runCmd_loop E (args2\<lparr>Path := ap\<rparr>) (Proxy (args2\<lparr>Path := ap\<rparr>) \<noteq> [])
            ((if IncludeVersion args then [WithVersion (templ_Version E)] else []) @
             (if IncludeTimestamp args then [WithTimestamp (time_Now E)] else []))
            ((backoff_NewExponentialBackOff (backoff_Multiplier E))
               \<lparr>InitialInterval := 500, MaxInterval := 3000, MaxElapsedTime := 0\<rparr>)
            False inps (emit (Processing_path (Path (args2\<lparr>Path := ap\<rparr>))) s)"
    unfolding runCmd_def Let_def args2_def[unfolded Let_def, symmetric]
    using assms(1) u ab by (simp del: runCmd_loop.simps)
  moreover have "Watch (args2\<lparr>Path := ap\<rparr>) = Watch args" using p2 by simp
  ultimately show ?thesis by blast
qed

lemma tree_mode_cancelled:
  assumes "ctx s = Some 0" "FileName args = []"
    and "Proxy args = [] \<or> url_Parse E (Proxy args) = Inr target"
    and "path_IsAbs E (Path args) \<or> filepath_Abs E (Path args) = Inr a"
  shows "fst (runCmd E args ((Inr d, files) # inps) s) = Returned (Some Canceled)"
proof -
  have c: "\<And>ev. ctx (emit ev s) = Some 0" using assms(1) by (simp add: emit_def)
  from runCmd_tree_mode[OF assms(2,3,4)] obtain args' p opts bo where
    "runCmd E args ((Inr d, files) # inps) s =
       runCmd_loop E args' p opts bo False ((Inr d, files) # inps)
         (emit (Processing_path (Path args')) s)"
    by metis
  then show ?thesis
    by (simp only: first_pass_cancelled[OF c])
qed

text \<open>
  C9, as amended. A cancellation error that \<open>runCmd\<close> returns makes \<open>Run\<close> return no
  error. The loop returns the cancellation error when it is the first error that a scan
  has collected. That is the case when the context is already cancelled where the
  traversal starts, and in single-file mode when it is cancelled where the pipeline of the
  file starts: then \<open>Run\<close> returns, and returns no error.
\<close>

theorem C9_cancellation_first_is_clean:
  "(fst (runCmd E args inps s) = Returned (Some e) \<longrightarrow> errors_Is_Canceled e \<longrightarrow>
      fst (Run E args inps s) = Returned None) \<and>
   (errs s1 \<noteq> [] \<longrightarrow> errors_Is_Canceled (hd (errs s1)) \<longrightarrow>
      afterScan E args p bo frc s1 = (Inl (Returned (Some (hd (errs s1)))), s1)) \<and>
   (ctx s = Some 0 \<longrightarrow> FileName args \<noteq> [] \<longrightarrow> \<not> Watch args \<longrightarrow>
      fst (Run E args inps s) = Returned None) \<and>
   (ctx s = Some 0 \<longrightarrow> FileName args = [] \<longrightarrow>
    (Proxy args = [] \<or> url_Parse E (Proxy args) = Inr target) \<longrightarrow>
    (path_IsAbs E (Path args) \<or> filepath_Abs E (Path args) = Inr a) \<longrightarrow>
      fst (Run E args ((Inr d, files) # inps) s) = Returned None)"
proof (intro conjI impI)
  assume "fst (runCmd E args inps s) = Returned (Some e)" "errors_Is_Canceled e"
  then show "fst (Run E args inps s) = Returned None" by (rule Run_of_cancelled)
next
  assume "errs s1 \<noteq> []" "errors_Is_Canceled (hd (errs s1))"
  then show "afterScan E args p bo frc s1 = (Inl (Returned (Some (hd (errs s1)))), s1)"
    by (rule afterScan_cancelled)
next
  assume "ctx s = Some 0" "FileName args \<noteq> []" "\<not> Watch args"
  then have "fst (runCmd E args inps s) = Returned (Some Canceled)"
    by (rule single_file_cancelled)
  then show "fst (Run E args inps s) = Returned None"
    by (rule Run_of_cancelled) simp
next
  assume "ctx s = Some 0" "FileName args = []"
    "Proxy args = [] \<or> url_Parse E (Proxy args) = Inr target"
    "path_IsAbs E (Path args) \<or> filepath_Abs E (Path args) = Inr a"
  then have "fst (runCmd E args ((Inr d, files) # inps) s) = Returned (Some Canceled)"
    by (rule tree_mode_cancelled)
  then show "fst (Run E args ((Inr d, files) # inps) s) = Returned None"
    by (rule Run_of_cancelled) simp
qed

text \<open>
  The theorem on a context that is cancelled before the run starts: in single-file mode
  and over a tree the run returns no error.
\<close>

theorem C9_cancellation_first_is_clean_witness:
  "ctx state_cancelled = Some 0 \<and>
   fst (Run env0 (args0\<lparr>FileName := ''/proj/a.templ''\<rparr>) [] state_cancelled)
     = Returned None \<and>
   fst (Run env0 args0 ((Inr (DirE ''proj'' [FileE ''a.templ'' (Inr 5)]), fs_gomod) # [])
          state_cancelled) = Returned None"
proof -
  have c: "ctx state_cancelled = Some 0" by (simp add: state_cancelled_def state0_def)
  have f: "FileName (args0\<lparr>FileName := ''/proj/a.templ''\<rparr>) \<noteq> []"
          "\<not> Watch (args0\<lparr>FileName := ''/proj/a.templ''\<rparr>)"
          "FileName args0 = []" "Proxy args0 = []"
    by (simp_all add: args0_def)
  have ab: "path_IsAbs env0 (Path args0)" by code_simp
  from C9_cancellation_first_is_clean[of env0 "args0\<lparr>FileName := ''/proj/a.templ''\<rparr>" "[]"
         state_cancelled Canceled state_cancelled False "backoff_NewExponentialBackOff (3, 2)" False "[]" "[]"
         "DirE ''proj'' []" fs_gomod]
  have one: "fst (Run env0 (args0\<lparr>FileName := ''/proj/a.templ''\<rparr>) [] state_cancelled)
               = Returned None"
    using c f by blast
  from C9_cancellation_first_is_clean[of env0 args0 "[]" state_cancelled Canceled
         state_cancelled False "backoff_NewExponentialBackOff (3, 2)" False "[]" "[]"
         "DirE ''proj'' [FileE ''a.templ'' (Inr 5)]" fs_gomod]
  have two: "fst (Run env0 args0
                ((Inr (DirE ''proj'' [FileE ''a.templ'' (Inr 5)]), fs_gomod) # [])
                state_cancelled) = Returned None"
    using c f ab by blast
  from c one two show ?thesis by simp
qed

text \<open>
  The claim as it is written fails: in one-shot mode the first file fails to parse, then
  the interrupt signal cancels the context, and the walk stops at the next file with the
  cancellation error. That error is the second of the scan, so \<open>Run\<close> returns an error,
  the failure to process the path, which holds the cancellation.
\<close>

theorem C9_cancellation_after_error_is_reported:
  "fst (Run env_bad_a args0 scan_two (state0\<lparr>ctx := Some 3\<rparr>)) =
     Returned (Some (Errorf_v ''failed to process path''
       [Errorf_w ''/proj/a.templ parsing error'' (Ext ''syntax error''), Canceled]))"
  by code_simp

section \<open>The delays between scans\<close>










lemma scan_events_no_sleep: "list_all scan_event evs \<Longrightarrow> filter is_Sleep evs = []"
proof (induction evs)
  case Nil
  then show ?case by simp
next
  case (Cons e evs)
  then show ?case by (cases e) simp_all
qed

lemma processChanges_sleeps [simp]:
  "filter is_Sleep (trace (processChanges E path rootEntry g opts keep s))
     = filter is_Sleep (trace s)"
  using processChanges_trace[of s E path rootEntry g opts keep]
  by (auto simp: extends_by_scan_def scan_events_no_sleep)

lemma reportChanges_sleeps [simp]:
  "filter is_Sleep (trace (reportChanges E args p frc n es s)) = filter is_Sleep (trace s)"
  by (simp add: reportChanges_def Let_def split: option.splits)



text \<open>
  What one pass of the loop sleeps, and the scheduler that it hands to the next pass.
\<close>

lemma reportChanges_changesFound [simp]:
  "changesFound (reportChanges E args p frc n es s) = changesFound s"
  by (simp add: reportChanges_def Let_def split: option.splits)





lemma Reset_bounds [simp]:
  "InitialInterval (backoff_Reset b) = InitialInterval b"
  "MaxInterval (backoff_Reset b) = MaxInterval b"
  "Multiplier (backoff_Reset b) = Multiplier b"
  "currentInterval (backoff_Reset b) = InitialInterval b"
  by (simp_all add: backoff_Reset_def)

lemma NextBackOff_fst [simp]: "fst (backoff_NextBackOff b) = currentInterval b"
  by (simp add: backoff_NextBackOff_def)







lemma loop_delays_first:
  "currentInterval b = InitialInterval b \<Longrightarrow>
     loop_delays b False (n1 # n2 # ns) =
       InitialInterval b # loop_delays (snd (backoff_NextBackOff (backoff_Reset b))) True ns"
  by (simp add: backoff_Reset_def backoff_NextBackOff_def)




section \<open>The worker pool never exceeds its capacity\<close>

lemma pool_init_inv: "pool_inv (pool_init n files)"
  by (simp add: pool_inv_def pool_init_def)

lemma length_remove1_mem: "f \<in> set xs \<Longrightarrow> Suc (length (remove1 f xs)) = length xs"
  by (induction xs) auto

lemma pool_step_inv:
  assumes "pool_inv P" "pool_step a P = Some Q"
  shows "pool_inv Q"
proof (cases a)
  case Acquire
  with assms show ?thesis by (auto simp: pool_inv_def split: if_splits)
next
  case Add
  with assms show ?thesis by (auto simp: pool_inv_def split: if_splits)
next
  case Spawn
  with assms show ?thesis by (auto simp: pool_inv_def split: if_splits list.splits)
next
  case EndWalk
  with assms show ?thesis by (auto simp: pool_inv_def split: if_splits)
next
  case Wait
  with assms show ?thesis by (auto simp: pool_inv_def split: if_splits)
next
  case (Compiled f)
  with assms have m: "f \<in> set (compiling P)" by (auto split: if_splits)
  from length_remove1_mem[OF m] Compiled assms show ?thesis
    by (auto simp: pool_inv_def split: if_splits)
next
  case (Release f)
  with assms have m: "f \<in> set (releasing P)" by (auto split: if_splits)
  from length_remove1_mem[OF m] Release assms show ?thesis
    by (auto simp: pool_inv_def split: if_splits)
next
  case (WgDone f)
  with assms have m: "f \<in> set (exiting P)" by (auto split: if_splits)
  from length_remove1_mem[OF m] WgDone assms show ?thesis
    by (auto simp: pool_inv_def split: if_splits)
qed

lemma pool_step_cap: "pool_step a P = Some Q \<Longrightarrow> maxWorkerCount Q = maxWorkerCount P"
  by (cases a) (auto split: if_splits list.splits)

lemma pool_run_inv:
  "pool_inv P \<Longrightarrow> pool_run sched P = Some Q \<Longrightarrow>
   pool_inv Q \<and> maxWorkerCount Q = maxWorkerCount P"
proof (induction sched arbitrary: P)
  case Nil
  then show ?case by simp
next
  case (Cons a sched)
  from Cons.prems(2) obtain R where R: "pool_step a P = Some R" "pool_run sched R = Some Q"
    by (auto split: option.splits)
  have "pool_inv R" using Cons.prems(1) R(1) by (rule pool_step_inv)
  from Cons.IH[OF this R(2)] pool_step_cap[OF R(1)] show ?case by simp
qed

text \<open>
  C7. In every state that the goroutines of a scan can reach, under any schedule, from a
  pool of capacity \<open>n\<close> and any list of changed files, at most \<open>n\<close> files are being
  compiled; and when \<^verbatim>\<open>wg.Wait()\<close> has returned, no goroutine is left and every
  file that was dispatched has been compiled.
\<close>

theorem C7_pool_bounded_and_joined:
  assumes "pool_run sched (pool_init n files) = Some P"
  shows "length (compiling P) \<le> n \<and>
         (walker P = Finished \<longrightarrow>
            compiling P = [] \<and> releasing P = [] \<and> exiting P = [] \<and>
            mset (completed P) = mset (dispatched P))"
proof -
  from pool_run_inv[OF pool_init_inv assms]
  have i: "pool_inv P" and c: "maxWorkerCount P = n" by (simp_all add: pool_init_def)
  from i c show ?thesis by (auto simp: pool_inv_def)
qed

text \<open>
  The theorem on a pool of capacity two and three changed files: after two dispatches two
  files are being compiled, and the third send on the channel blocks.
\<close>

theorem C7_pool_bounded_and_joined_witness:
  "pool_run [Acquire, Add, Spawn, Acquire, Add, Spawn] (pool_init 2 [''a'', ''b'', ''c''])
     = Some \<lparr>maxWorkerCount = 2, pending = [''c''], walker = Walking, sem = 2, wg = 2,
             compiling = [''b'', ''a''], releasing = [], exiting = [],
             dispatched = [''a'', ''b''], completed = []\<rparr> \<and>
   pool_run [Acquire, Add, Spawn, Acquire, Add, Spawn, Acquire] (pool_init 2 [''a'', ''b'', ''c''])
     = None \<and>
   length (compiling \<lparr>maxWorkerCount = 2, pending = [''c''], walker = Walking, sem = 2, wg = 2,
             compiling = [''b'', ''a''], releasing = [], exiting = [],
             dispatched = [''a'', ''b''], completed = []\<rparr>) \<le> 2"
proof -
  have r: "pool_run [Acquire, Add, Spawn, Acquire, Add, Spawn] (pool_init 2 [''a'', ''b'', ''c''])
     = Some \<lparr>maxWorkerCount = 2, pending = [''c''], walker = Walking, sem = 2, wg = 2,
             compiling = [''b'', ''a''], releasing = [], exiting = [],
             dispatched = [''a'', ''b''], completed = []\<rparr>"
    by (simp add: pool_init_def)
  have b: "pool_run [Acquire, Add, Spawn, Acquire, Add, Spawn, Acquire] (pool_init 2 [''a'', ''b'', ''c''])
     = None"
    by (simp add: pool_init_def)
  from C7_pool_bounded_and_joined[OF r] r b show ?thesis by simp
qed

section \<open>What the walk calls, and where it stops\<close>

lemma walkDir_callback_error:
  "f p d None s = (Some err, t) \<Longrightarrow> err \<noteq> SkipDir \<Longrightarrow> walkDir f p d s = (Some err, t)"
  by (cases d) simp_all

lemma visits_error:
  "visits f p d s q e t \<Longrightarrow> f q e None t = (Some err, t') \<Longrightarrow> err \<noteq> SkipDir
     \<Longrightarrow> walkDir f p d s = (Some err, t')"
  "visits_in f p es s q e t \<Longrightarrow> f q e None t = (Some err, t') \<Longrightarrow> err \<noteq> SkipDir
     \<Longrightarrow> walkEntries f p es s = (Some err, t')"
proof (induction rule: visits_visits_in.inducts)
  case (here f p d s)
  then show ?case by (simp add: walkDir_callback_error)
next
  case (below f p n es s s1 q e t)
  then show ?case by simp
next
  case (first f p d1 s q e t ds)
  then show ?case by simp
next
  case (later f p d1 s s1 ds q e t)
  then show ?case by simp
qed

lemma visits_rel_aux:
  assumes refl: "\<And>s. R s s"
    and trans: "\<And>a b c. R a b \<Longrightarrow> R b c \<Longrightarrow> R a c"
  shows "visits f p d s q e t \<Longrightarrow> (\<forall>p d e s. R s (snd (f p d e s)))
           \<longrightarrow> R (snd (f q e None t)) (snd (walkDir f p d s))"
    and "visits_in f p es s q e t \<Longrightarrow> (\<forall>p d e s. R s (snd (f p d e s)))
           \<longrightarrow> R (snd (f q e None t)) (snd (walkEntries f p es s))"
proof (induction rule: visits_visits_in.inducts)
  case (here f p d s)
  show ?case
  proof
    assume step: "\<forall>p d e s. R s (snd (f p d e s))"
    obtain r s1 where r: "f p d None s = (r, s1)" by (cases "f p d None s")
    show "R (snd (f p d None s)) (snd (walkDir f p d s))"
    proof (cases d)
      case (FileE n i)
      with r show ?thesis by (simp add: refl)
    next
      case (DirE n es)
      have "R s1 (snd (walkEntries f p es s1))"
        using walk_rel(2)[of R f s1 p es] step refl trans by blast
      with DirE r show ?thesis by (cases r) (simp_all add: refl)
    next
      case (BadDirE n rerr)
      have "R s1 (snd (f p (BadDirE n rerr) (Some rerr) s1))" using step by blast
      with BadDirE r show ?thesis
        by (cases r; cases "f p (BadDirE n rerr) (Some rerr) s1";
            cases "fst (f p (BadDirE n rerr) (Some rerr) s1)")
           (simp_all add: refl)
    qed
  qed
next
  case (below f p n es s s1 q e t)
  then show ?case by simp
next
  case (first f p d1 s q e t ds)
  show ?case
  proof
    assume step: "\<forall>p d e s. R s (snd (f p d e s))"
    obtain r s1 where r: "walkDir f (filepath_Join p (Name d1)) d1 s = (r, s1)"
      by (cases "walkDir f (filepath_Join p (Name d1)) d1 s")
    have a: "R (snd (f q e None t)) s1" using first.IH step r by simp
    have "R s1 (snd (walkEntries f p ds s1))"
      using walk_rel(2)[of R f s1 p ds] step refl trans by blast
    with a have "R (snd (f q e None t)) (snd (walkEntries f p ds s1))" by (rule trans)
    with a r show "R (snd (f q e None t)) (snd (walkEntries f p (d1 # ds) s))"
      by (cases r) simp_all
  qed
next
  case (later f p d1 s s1 ds q e t)
  then show ?case by simp
qed

lemma visits_rel:
  assumes "visits f p d s q e t"
    and "\<And>p d e s. R s (snd (f p d e s))"
    and "\<And>s. R s s"
    and "\<And>a b c. R a b \<Longrightarrow> R b c \<Longrightarrow> R a c"
  shows "R (snd (f q e None t)) (snd (walkDir f p d s))"
  using visits_rel_aux(1)[of R f p d s q e t] assms by blast


lemma suffix_last:
  assumes "strings_HasSuffix f suf" "suf \<noteq> []"
  shows "last f = last suf"
proof -
  from assms have l: "length suf \<le> length f" and d: "drop (length f - length suf) f = suf"
    by (simp_all add: strings_HasSuffix_def)
  from assms(2) l have "length f - length suf < length f" by (cases suf) auto
  then have "last (drop (length f - length suf) f) = last f" by (rule last_drop)
  with d show ?thesis by simp
qed

lemma suffix_exclusive:
  "strings_HasSuffix f ''_templ.go'' \<Longrightarrow> \<not> strings_HasSuffix f ''.templ''"
proof
  assume a: "strings_HasSuffix f ''_templ.go''" and b: "strings_HasSuffix f ''.templ''"
  from suffix_last[OF a] have "last f = CHR ''o''" by simp
  moreover from suffix_last[OF b] have "last f = CHR ''l''" by simp
  ultimately show False by simp
qed

lemma walkFn_retained:
  assumes "\<not> IsDir info" "strings_HasSuffix fileName ''_templ.go''" "fst (ctx_Err s) = None"
  shows "walkFn E path g opts True fileName info None s = (None, snd (ctx_Err s))"
  using assms suffix_exclusive[OF assms(2)]
  by (simp add: walkFn_def case_prod_beta)

lemma walkFn_sibling_exists:
  assumes "\<not> IsDir info" "strings_HasSuffix fileName ''_templ.go''" "fst (ctx_Err s) = None"
    and "fs s (strings_TrimSuffix fileName ''_templ.go'' @ ''.templ'') \<noteq> None"
  shows "walkFn E path g opts False fileName info None s = (None, snd (ctx_Err s))"
  using assms
  by (auto simp: walkFn_def case_prod_beta os_Stat_def split: option.splits)

lemma walkFn_orphan_removed:
  assumes "\<not> IsDir info" "strings_HasSuffix fileName ''_templ.go''" "fst (ctx_Err s) = None"
    and "fs s (strings_TrimSuffix fileName ''_templ.go'' @ ''.templ'') = None"
    and "fs s fileName \<noteq> None" "remove_fault E fileName = None"
  shows "walkFn E path g opts False fileName info None s =
           (None, emit (Deleted_orphaned_file fileName)
                    ((snd (ctx_Err s))\<lparr>fs := (fs s)(fileName := None)\<rparr>))"
  using assms
  by (auto simp: walkFn_def case_prod_beta os_Stat_def os_Remove_def split: option.splits)

lemma walkFn_orphan_remove_fails:
  assumes "\<not> IsDir info" "strings_HasSuffix fileName ''_templ.go''" "fst (ctx_Err s) = None"
    and "fs s (strings_TrimSuffix fileName ''_templ.go'' @ ''.templ'') = None"
    and "fst (os_Remove E fileName (snd (ctx_Err s))) = Some e"
  shows "walkFn E path g opts False fileName info None s =
           (Some (Errorf_w ''failed to remove file'' e), snd (ctx_Err s))"
proof -
  from assms(5) have "os_Remove E fileName (snd (ctx_Err s)) = (Some e, snd (ctx_Err s))"
    by (auto simp: os_Remove_def split: option.splits)
  with assms(1-4) show ?thesis
    by (simp add: walkFn_def case_prod_beta os_Stat_def)
qed

lemma scan_error_of_visit:
  assumes "visits (walkFn E path g opts keep) path d0 (s0\<lparr>changesFound := 0, errs := []\<rparr>)
             fileName info s"
    and "walkFn E path g opts keep fileName info None s = (Some err, s')" "err \<noteq> SkipDir"
  shows "errs (processChanges E path (Inr d0) g opts keep s0) = errs s' @ [err]"
  using visits_error(1)[OF assms] assms(3)
  by (simp add: processChanges_def filepath_WalkDir_def)

section \<open>The orphan check\<close>

text \<open>
  C5. For a generated file (a file whose path ends in \<^verbatim>\<open>_templ.go\<close>) that the walk
  reaches while the context is not cancelled: with retain-orphans set the file system is
  left as it is and no error is returned. With retain-orphans unset: if the sibling path
  with the source suffix exists, the file system is left as it is and no error is
  returned; if it does not exist and the removal succeeds, the file is removed, the
  warning is written and no error is returned, so the walk goes on; for a file that is
  there and can be removed, it is gone after the call if and only if the sibling does
  not exist; and if the removal fails, the call returns the failure, the walk stops, and
  the failure is the last error of the scan.
\<close>

theorem C5_orphan_reaper:
  assumes "\<not> IsDir info" and "strings_HasSuffix fileName ''_templ.go''"
    and "fst (ctx_Err s) = None"
  shows
    "walkFn E path g opts True fileName info None s = (None, snd (ctx_Err s)) \<and>
     fs (snd (ctx_Err s)) = fs s \<and>
     (fs s (strings_TrimSuffix fileName ''_templ.go'' @ ''.templ'') \<noteq> None \<longrightarrow>
        walkFn E path g opts False fileName info None s = (None, snd (ctx_Err s))) \<and>
     (fs s (strings_TrimSuffix fileName ''_templ.go'' @ ''.templ'') = None \<longrightarrow>
      fs s fileName \<noteq> None \<longrightarrow> remove_fault E fileName = None \<longrightarrow>
        walkFn E path g opts False fileName info None s =
          (None, emit (Deleted_orphaned_file fileName)
                   ((snd (ctx_Err s))\<lparr>fs := (fs s)(fileName := None)\<rparr>))) \<and>
     (fs s fileName \<noteq> None \<longrightarrow> remove_fault E fileName = None \<longrightarrow>
        (fs (snd (walkFn E path g opts False fileName info None s)) fileName = None)
          = (fs s (strings_TrimSuffix fileName ''_templ.go'' @ ''.templ'') = None)) \<and>
     (fs s (strings_TrimSuffix fileName ''_templ.go'' @ ''.templ'') = None \<longrightarrow>
      fst (os_Remove E fileName (snd (ctx_Err s))) = Some e \<longrightarrow>
        walkFn E path g opts False fileName info None s =
          (Some (Errorf_w ''failed to remove file'' e), snd (ctx_Err s)) \<and>
        (visits (walkFn E path g opts False) path d0 (s0\<lparr>changesFound := 0, errs := []\<rparr>)
           fileName info s \<longrightarrow>
         errs (processChanges E path (Inr d0) g opts False s0)
           = errs s @ [Errorf_w ''failed to remove file'' e]))"
proof (intro conjI impI)
  show "walkFn E path g opts True fileName info None s = (None, snd (ctx_Err s))"
    using assms by (rule walkFn_retained)
  show "fs (snd (ctx_Err s)) = fs s" by simp
  show "walkFn E path g opts False fileName info None s = (None, snd (ctx_Err s))"
    if "fs s (strings_TrimSuffix fileName ''_templ.go'' @ ''.templ'') \<noteq> None"
    using assms that by (rule walkFn_sibling_exists)
  show "walkFn E path g opts False fileName info None s =
          (None, emit (Deleted_orphaned_file fileName)
                   ((snd (ctx_Err s))\<lparr>fs := (fs s)(fileName := None)\<rparr>))"
    if "fs s (strings_TrimSuffix fileName ''_templ.go'' @ ''.templ'') = None"
      "fs s fileName \<noteq> None" "remove_fault E fileName = None"
    using assms that by (rule walkFn_orphan_removed)
  show "(fs (snd (walkFn E path g opts False fileName info None s)) fileName = None)
          = (fs s (strings_TrimSuffix fileName ''_templ.go'' @ ''.templ'') = None)"
    if h: "fs s fileName \<noteq> None" "remove_fault E fileName = None"
  proof (cases "fs s (strings_TrimSuffix fileName ''_templ.go'' @ ''.templ'') = None")
    case True
    with walkFn_orphan_removed[OF assms True h, of path g opts] show ?thesis by simp
  next
    case False
    with walkFn_sibling_exists[OF assms False, of E path g opts] h show ?thesis by auto
  qed
  show r: "walkFn E path g opts False fileName info None s =
          (Some (Errorf_w ''failed to remove file'' e), snd (ctx_Err s))"
    if "fs s (strings_TrimSuffix fileName ''_templ.go'' @ ''.templ'') = None"
      "fst (os_Remove E fileName (snd (ctx_Err s))) = Some e"
    using assms that by (rule walkFn_orphan_remove_fails)
  show "errs (processChanges E path (Inr d0) g opts False s0)
           = errs s @ [Errorf_w ''failed to remove file'' e]"
    if "fs s (strings_TrimSuffix fileName ''_templ.go'' @ ''.templ'') = None"
      "fst (os_Remove E fileName (snd (ctx_Err s))) = Some e"
      "visits (walkFn E path g opts False) path d0 (s0\<lparr>changesFound := 0, errs := []\<rparr>)
           fileName info s"
    using scan_error_of_visit[OF that(3) r[OF that(1,2)]] by simp
qed

text \<open>
  The theorem on an orphan at \<^verbatim>\<open>/proj/x_templ.go\<close>: where the removal is refused
  the scan reports the failure, and where it is allowed the file is removed with a
  warning.
\<close>

theorem C5_orphan_reaper_witness:
  "fs state_orphan ''/proj/x.templ'' = None \<and>
   fs state_orphan ''/proj/x_templ.go'' = Some ''package main'' \<and>
   errs (processChanges env_locked ''/proj'' (Inr tree_orphan) False [] False state_orphan)
     = [Errorf_w ''failed to remove file'' (Ext ''permission denied'')] \<and>
   walkFn env0 ''/proj'' False [] False ''/proj/x_templ.go'' (FileE ''x_templ.go'' (Inr 1)) None
       state_orphan
     = (None, emit (Deleted_orphaned_file ''/proj/x_templ.go'')
               (state_orphan\<lparr>fs := (fs state_orphan)(''/proj/x_templ.go'' := None)\<rparr>))"
proof -
  let ?info = "FileE ''x_templ.go'' (Inr 1)"
  let ?s = "state_orphan\<lparr>changesFound := 0, errs := []\<rparr>"
  have same: "?s = state_orphan" by (simp add: state_orphan_def state0_def)
  have h1: "\<not> IsDir ?info" by simp
  have h2: "strings_HasSuffix ''/proj/x_templ.go'' ''_templ.go''" by code_simp
  have h3: "fst (ctx_Err ?s) = None" "snd (ctx_Err ?s) = ?s"
    by (simp_all add: ctx_Err_def state_orphan_def state0_def)
  have sib: "strings_TrimSuffix ''/proj/x_templ.go'' ''_templ.go'' @ ''.templ'' = ''/proj/x.templ''"
    by code_simp
  have f1: "fs ?s ''/proj/x.templ'' = None" by (simp add: state_orphan_def state0_def)
  have f2: "fs ?s ''/proj/x_templ.go'' = Some ''package main''"
    by (simp add: state_orphan_def state0_def)
  have rm: "fst (os_Remove env_locked ''/proj/x_templ.go'' (snd (ctx_Err ?s)))
              = Some (Ext ''permission denied'')"
    by (simp add: h3 os_Remove_def env_locked_def env0_def state_orphan_def state0_def)
  have sk: "shouldSkipDir ''/proj'' = False" by code_simp
  have root: "walkFn env_locked ''/proj'' False [] False ''/proj''
                (DirE ''proj'' [FileE ''x_templ.go'' (Inr 1)]) None ?s = (None, ?s)"
    by (simp add: walkFn_def case_prod_beta h3 sk)
  have j: "filepath_Join ''/proj'' ''x_templ.go'' = ''/proj/x_templ.go''" by code_simp
  have v_here: "visits (walkFn env_locked ''/proj'' False [] False) ''/proj/x_templ.go'' ?info ?s
             ''/proj/x_templ.go'' ?info ?s"
    by (rule visits_visits_in.here)
  have v_in: "visits_in (walkFn env_locked ''/proj'' False [] False) ''/proj'' [?info] ?s
             ''/proj/x_templ.go'' ?info ?s"
    by (rule visits_visits_in.first) (simp add: j v_here)
  have v: "visits (walkFn env_locked ''/proj'' False [] False) ''/proj'' tree_orphan ?s
             ''/proj/x_templ.go'' ?info ?s"
    unfolding tree_orphan_def
    by (rule visits_visits_in.below, rule root, rule v_in)
  note T = C5_orphan_reaper[OF h1 h2 h3(1), where path = "''/proj''" and g = False
             and opts = "[]" and ?d0.0 = tree_orphan and ?s0.0 = state_orphan]
  from T[where E = env_locked and e = "Ext ''permission denied''"] sib f1 rm v
  have a: "errs (processChanges env_locked ''/proj'' (Inr tree_orphan) False [] False state_orphan)
     = [Errorf_w ''failed to remove file'' (Ext ''permission denied'')]"
    by (simp add: state_orphan_def state0_def)
  have nf: "remove_fault env0 ''/proj/x_templ.go'' = None" by (simp add: env0_def)
  from T[where E = env0 and e = "Ext ''permission denied''"] sib f1 f2 nf h3(2)
  have b: "walkFn env0 ''/proj'' False [] False ''/proj/x_templ.go'' ?info None ?s
     = (None, emit (Deleted_orphaned_file ''/proj/x_templ.go'')
               (?s\<lparr>fs := (fs ?s)(''/proj/x_templ.go'' := None)\<rparr>))"
    by simp
  from a b f1 f2 show ?thesis unfolding same by simp
qed

section \<open>The change detector\<close>

text \<open>
  The callback of the walk, on a source file: when the modification time is not after the
  recorded one it does nothing but the check of the context; when it is after, it records
  the time, counts the file and dispatches the pipeline, whose error, if any, is collected.
\<close>

lemma psf_events_no_dispatch [simp]:
  "filter is_Dispatch (psf_events E base name g opts s) = []"
  by (simp add: psf_events_def split: option.splits)

lemma walkFn_shape:
  "((trace (snd (walkFn E path g opts keep fileName info err s)) = trace s \<or>
     trace (snd (walkFn E path g opts keep fileName info err s))
       = trace s @ [Deleted_orphaned_file fileName]) \<and>
    changesFound (snd (walkFn E path g opts keep fileName info err s)) = changesFound s) \<or>
   (\<not> IsDir info \<and> strings_HasSuffix fileName ''.templ'' \<and>
    (\<exists>t. Info info = Inr t \<and> lastModTime s fileName < t) \<and>
    changesFound (snd (walkFn E path g opts keep fileName info err s)) = changesFound s + 1 \<and>
    (\<exists>evs. trace (snd (walkFn E path g opts keep fileName info err s))
             = trace s @ Dispatch fileName # evs \<and> filter is_Dispatch evs = []))"
  by (simp add: walkFn_def Let_def case_prod_beta lastModTime_def lookupTime_def
        split: option.splits sum.splits)

lemma walkFn_unchanged_source:
  assumes "\<not> IsDir info" "strings_HasSuffix fileName ''.templ''" "Info info = Inr t"
    and "t \<le> lastModTime s fileName"
  shows "walkFn E path g opts keep fileName info None s = ctx_Err s"
proof -
  have "\<not> strings_HasSuffix fileName ''_templ.go''"
    using suffix_exclusive assms(2) by blast
  moreover obtain a b where ab: "ctx_Err s = (a, b)" by (cases "ctx_Err s")
  moreover have "modTimes b = modTimes s" using ctx_Err_frame(3)[of s] ab by simp
  ultimately show ?thesis
    using assms
    by (simp add: walkFn_def lastModTime_def lookupTime_def split: option.splits)
qed

lemma walkFn_changed_source:
  assumes "\<not> IsDir info" "strings_HasSuffix fileName ''.templ''" "Info info = Inr t"
    and "lastModTime s fileName < t" "fst (ctx_Err s) = None"
  shows "walkFn E path g opts keep fileName info None s =
           (None,
            case processSingleFile E path fileName g opts
                   (emit (Dispatch fileName)
                      ((snd (ctx_Err s))\<lparr>modTimes := (modTimes s)(fileName \<mapsto> t),
                                          changesFound := changesFound s + 1\<rparr>)) of
              (Some e, s3) \<Rightarrow> s3\<lparr>errs := errs s3 @ [e]\<rparr>
            | (None, s3) \<Rightarrow> s3)"
proof -
  have "\<not> strings_HasSuffix fileName ''_templ.go''"
    using suffix_exclusive assms(2) by blast
  with assms show ?thesis
    by (simp add: walkFn_def Let_def case_prod_beta lastModTime_def lookupTime_def
          split: option.splits)
qed

lemma walkFn_changed_effect:
  assumes "\<not> IsDir info" "strings_HasSuffix fileName ''.templ''" "Info info = Inr t"
    and "lastModTime s fileName < t" "fst (ctx_Err s) = None"
  shows "fst (walkFn E path g opts keep fileName info None s) = None"
    and "modTimes (snd (walkFn E path g opts keep fileName info None s)) fileName = Some t"
    and "changesFound (snd (walkFn E path g opts keep fileName info None s)) = changesFound s + 1"
    and "errs (snd (walkFn E path g opts keep fileName info None s)) =
           errs s @ (case fst (processSingleFile E path fileName g opts
                   (emit (Dispatch fileName)
                      ((snd (ctx_Err s))\<lparr>modTimes := (modTimes s)(fileName \<mapsto> t),
                                          changesFound := changesFound s + 1\<rparr>))) of
                       Some e \<Rightarrow> [e] | None \<Rightarrow> [])"
  unfolding walkFn_changed_source[OF assms]
  by (simp_all add: case_prod_beta split: option.splits)

text \<open>
  A walk that ends without an error has recorded every source file of the tree with a
  time that is at least the file's modification time.
\<close>

lemma ctx_Err_error: "fst (ctx_Err s) = Some e \<Longrightarrow> e = Canceled"
  by (auto simp: ctx_Err_def split: option.splits nat.splits)

lemma walkFn_dir:
  assumes "IsDir info"
  shows "\<not> shouldSkipDir fileName \<Longrightarrow> walkFn E path g opts keep fileName info None s = ctx_Err s"
    and "shouldSkipDir fileName \<Longrightarrow> fst (walkFn E path g opts keep fileName info None s) \<noteq> None"
  using assms
  by (cases "ctx_Err s"; simp add: walkFn_def split: option.splits)+

lemma walkFn_file_no_SkipDir:
  "\<not> IsDir info \<Longrightarrow> fst (walkFn E path g opts keep fileName info None s) \<noteq> Some SkipDir"
  using ctx_Err_error[of s]
  by (auto simp: walkFn_def Let_def case_prod_beta split: option.splits sum.splits)

lemma walkEntries_no_SkipDir: "fst (walkEntries f p es s) \<noteq> Some SkipDir"
  by (induction es arbitrary: s) (auto split: prod.splits option.splits)

lemma walkDir_no_SkipDir:
  "fst (walkDir (walkFn E path g opts keep) p d s) \<noteq> Some SkipDir"
proof (cases d)
  case (FileE n i)
  then show ?thesis using walkFn_file_no_SkipDir[of "FileE n i" E path g opts keep p s] by simp
next
  case (DirE n es)
  then show ?thesis
    using walkEntries_no_SkipDir[of "walkFn E path g opts keep" p es]
    by (auto split: prod.splits option.splits)
next
  case (BadDirE n e)
  then show ?thesis by (auto split: prod.splits option.splits)
qed

lemma advances_lastModTime: "advances s s' \<Longrightarrow> lastModTime s f \<le> lastModTime s' f"
  by (simp add: advances_def map_advances_def lastModTime_def)

lemma entries_recorded:
  "(\<And>d p s s'. d \<in> set es \<Longrightarrow>
             walkDir (walkFn E path g opts keep) p d s = (None, s') \<Longrightarrow>
             \<forall>(f, t)\<in>set (sources p d). t \<le> lastModTime s' f) \<Longrightarrow>
   walkEntries (walkFn E path g opts keep) p es s = (None, s') \<Longrightarrow>
           \<forall>(f, t)\<in>set (sources_in p es). t \<le> lastModTime s' f"
proof (induction es arbitrary: s)
  case Nil
  then show ?case by simp
next
  case (Cons d1 ds)
  let ?F = "walkFn E path g opts keep"
  obtain r s1 where r: "walkDir ?F (filepath_Join p (Name d1)) d1 s = (r, s1)"
    by (cases "walkDir ?F (filepath_Join p (Name d1)) d1 s")
  have ns: "r \<noteq> Some SkipDir"
    using walkDir_no_SkipDir[of E path g opts keep "filepath_Join p (Name d1)" d1 s] r by simp
  from Cons.prems(2) r
  have eq: "(case r of Some e \<Rightarrow> (if e = SkipDir then None else Some e, s1)
             | None \<Rightarrow> walkEntries ?F p ds s1) = (None, s')"
    by simp
  have rn: "r = None"
  proof (cases r)
    case None
    then show ?thesis .
  next
    case (Some e)
    with eq ns show ?thesis by (simp split: if_splits)
  qed
  with eq have rest: "walkEntries ?F p ds s1 = (None, s')" by simp
  have a: "\<forall>(f, t)\<in>set (sources (filepath_Join p (Name d1)) d1). t \<le> lastModTime s1 f"
    using Cons.prems(1)[of d1 "filepath_Join p (Name d1)" s s1] r rn by simp
  have adv: "advances s1 s'"
    using walk_advances(2)[of s1 E path g opts keep p ds] rest by simp
  have b: "\<forall>(f, t)\<in>set (sources_in p ds). t \<le> lastModTime s' f"
  proof (rule Cons.IH[OF _ rest])
    fix d q u u'
    assume "d \<in> set ds" "walkDir (walkFn E path g opts keep) q d u = (None, u')"
    then show "\<forall>(f, t)\<in>set (sources q d). t \<le> lastModTime u' f"
      using Cons.prems(1)[of d q u u'] by simp
  qed
  have c: "\<forall>(f, t)\<in>set (sources (filepath_Join p (Name d1)) d1). t \<le> lastModTime s' f"
  proof clarify
    fix f t
    assume "(f, t) \<in> set (sources (filepath_Join p (Name d1)) d1)"
    with a have "t \<le> lastModTime s1 f" by blast
    also have "\<dots> \<le> lastModTime s' f" by (rule advances_lastModTime[OF adv])
    finally show "t \<le> lastModTime s' f" .
  qed
  from b c show ?case by auto
qed

lemma walk_recorded:
  "walkDir (walkFn E path g opts keep) p d s = (None, s') \<Longrightarrow>
     \<forall>(f, t)\<in>set (sources p d). t \<le> lastModTime s' f"
proof (induction d arbitrary: p s s')
  case (FileE n i)
  show ?case
  proof (cases i)
    case (Inl e)
    then show ?thesis by simp
  next
    case (Inr t)
    show ?thesis
    proof (cases "strings_HasSuffix p ''.templ''")
      case False
      with Inr show ?thesis by simp
    next
      case True
      have w: "walkFn E path g opts keep p (FileE n i) None s = (None, s')"
        using FileE by simp
      have "t \<le> lastModTime s' p"
      proof (cases "t \<le> lastModTime s p")
        case le: True
        have "walkFn E path g opts keep p (FileE n i) None s = ctx_Err s"
          using walkFn_unchanged_source[of "FileE n i" p t s E path g opts keep] True Inr le
          by simp
        with w have "s' = snd (ctx_Err s)" by simp
        then show ?thesis using le by (simp add: lastModTime_def)
      next
        case gt: False
        have c: "fst (ctx_Err s) = None"
        proof (rule ccontr)
          assume "fst (ctx_Err s) \<noteq> None"
          then have "fst (walkFn E path g opts keep p (FileE n i) None s) \<noteq> None"
            by (cases "ctx_Err s") (auto simp: walkFn_def)
          with w show False by simp
        qed
        from walkFn_changed_effect(2)[of "FileE n i" p t s E path g opts keep] True Inr gt c w
        show ?thesis by (simp add: lastModTime_def lookupTime_def)
      qed
      with Inr True show ?thesis by simp
    qed
  qed
next
  case (DirE n es)
  show ?case
  proof (cases "shouldSkipDir p")
    case True
    then show ?thesis by simp
  next
    case False
    let ?F = "walkFn E path g opts keep"
    have cb: "?F p (DirE n es) None s = ctx_Err s"
      using walkFn_dir(1)[of "DirE n es" p E path g opts keep s] False by simp
    with DirE.prems have "walkEntries ?F p es (snd (ctx_Err s)) = (None, s')"
      using ctx_Err_error[of s]
      by (cases "ctx_Err s") (auto split: option.splits if_splits)
    then have "\<forall>(f, t)\<in>set (sources_in p es). t \<le> lastModTime s' f"
      using entries_recorded[of es E path g opts keep p "snd (ctx_Err s)" s'] DirE.IH
      by blast
    with False show ?thesis by simp
  qed
next
  case (BadDirE n e)
  then show ?case by simp
qed

text \<open>
  A file is dispatched by a scan only if the tree holds it with a modification time after
  the recorded one; the counter of a scan is the number of its dispatches.
\<close>

lemma no_dispatch_sub:
  "filter is_Dispatch evs = [] \<Longrightarrow> filter (\<lambda>e. e = Dispatch f0) evs = []"
  by (induction evs) (auto split: if_splits)

lemma walkFn_cases:
  obtains (same) "trace (snd (walkFn E path g opts keep fileName info err s)) = trace s"
      "changesFound (snd (walkFn E path g opts keep fileName info err s)) = changesFound s"
  | (deleted) "trace (snd (walkFn E path g opts keep fileName info err s))
                 = trace s @ [Deleted_orphaned_file fileName]"
      "changesFound (snd (walkFn E path g opts keep fileName info err s)) = changesFound s"
  | (dispatched) t evs where "\<not> IsDir info" "strings_HasSuffix fileName ''.templ''"
      "Info info = Inr t" "lastModTime s fileName < t"
      "changesFound (snd (walkFn E path g opts keep fileName info err s)) = changesFound s + 1"
      "trace (snd (walkFn E path g opts keep fileName info err s))
         = trace s @ Dispatch fileName # evs"
      "filter is_Dispatch evs = []"
  using walkFn_shape[of E path g opts keep fileName info err s] by blast

lemma walkFn_no_dispatch_of:
  assumes "fileName \<noteq> f0 \<or> IsDir info \<or> \<not> strings_HasSuffix fileName ''.templ'' \<or>
           (\<forall>t. Info info = Inr t \<longrightarrow> t \<le> lastModTime s f0)"
  shows "filter (\<lambda>e. e = Dispatch f0) (trace (snd (walkFn E path g opts keep fileName info err s)))
           = filter (\<lambda>e. e = Dispatch f0) (trace s)"
proof (cases rule: walkFn_cases[of E path g opts keep fileName info err s])
  case same
  then show ?thesis by simp
next
  case deleted
  then show ?thesis by simp
next
  case (dispatched t evs)
  with assms have "fileName \<noteq> f0" by auto
  with dispatched(6) no_dispatch_sub[OF dispatched(7), of f0] show ?thesis by simp
qed

lemma walkFn_count:
  "changesFound (snd (walkFn E path g opts keep fileName info err s))
     + length (filter is_Dispatch (trace s))
   = changesFound s
     + length (filter is_Dispatch (trace (snd (walkFn E path g opts keep fileName info err s))))"
proof (cases rule: walkFn_cases[of E path g opts keep fileName info err s])
  case same
  then show ?thesis by simp
next
  case deleted
  then show ?thesis by simp
next
  case (dispatched t evs)
  then show ?thesis by simp
qed

lemma processChanges_count:
  "changesFound (processChanges E path rootEntry g opts keep s)
     + length (filter is_Dispatch (trace s))
   = length (filter is_Dispatch (trace (processChanges E path rootEntry g opts keep s)))"
proof -
  let ?s0 = "s\<lparr>changesFound := 0, errs := []\<rparr>"
  let ?R = "\<lambda>a b. changesFound b + length (filter is_Dispatch (trace a))
                  = changesFound a + length (filter is_Dispatch (trace b))"
  have "?R ?s0 (snd (filepath_WalkDir path rootEntry (walkFn E path g opts keep) ?s0))"
  proof (rule WalkDir_rel[where R = ?R])
    show "\<And>p d e s. ?R s (snd (walkFn E path g opts keep p d e s))"
      by (rule walkFn_count)
    show "\<And>s. ?R s s" by simp
    show "\<And>a b c. ?R a b \<Longrightarrow> ?R b c \<Longrightarrow> ?R a c" by simp
  qed
  then show ?thesis
    by (simp add: processChanges_def case_prod_beta split: option.splits)
qed

lemma entries_no_dispatch_of:
  "(\<And>d p s. d \<in> set es \<Longrightarrow>
        \<forall>t. (f0, t) \<in> set (sources p d) \<longrightarrow> t \<le> lastModTime s f0 \<Longrightarrow>
        filter (\<lambda>e. e = Dispatch f0) (trace (snd (walkDir (walkFn E path g opts keep) p d s)))
          = filter (\<lambda>e. e = Dispatch f0) (trace s)) \<Longrightarrow>
   \<forall>t. (f0, t) \<in> set (sources_in p es) \<longrightarrow> t \<le> lastModTime s f0 \<Longrightarrow>
   filter (\<lambda>e. e = Dispatch f0) (trace (snd (walkEntries (walkFn E path g opts keep) p es s)))
     = filter (\<lambda>e. e = Dispatch f0) (trace s)"
proof (induction es arbitrary: s)
  case Nil
  then show ?case by simp
next
  case (Cons d1 ds)
  let ?F = "walkFn E path g opts keep"
  obtain r s1 where r: "walkDir ?F (filepath_Join p (Name d1)) d1 s = (r, s1)"
    by (cases "walkDir ?F (filepath_Join p (Name d1)) d1 s")
  have h1: "\<forall>t. (f0, t) \<in> set (sources (filepath_Join p (Name d1)) d1) \<longrightarrow> t \<le> lastModTime s f0"
    using Cons.prems(2) by simp
  have a: "filter (\<lambda>e. e = Dispatch f0) (trace s1) = filter (\<lambda>e. e = Dispatch f0) (trace s)"
    using Cons.prems(1)[of d1 "filepath_Join p (Name d1)" s, OF _ h1] r by simp
  show ?case
  proof (cases r)
    case (Some e)
    with r a show ?thesis by simp
  next
    case None
    have adv: "advances s s1"
      using walk_advances(1)[of s E path g opts keep "filepath_Join p (Name d1)" d1] r by simp
    have h2: "\<forall>t. (f0, t) \<in> set (sources_in p ds) \<longrightarrow> t \<le> lastModTime s1 f0"
    proof (intro allI impI)
      fix t
      assume "(f0, t) \<in> set (sources_in p ds)"
      with Cons.prems(2) have "t \<le> lastModTime s f0" by simp
      also have "\<dots> \<le> lastModTime s1 f0" by (rule advances_lastModTime[OF adv])
      finally show "t \<le> lastModTime s1 f0" .
    qed
    have "filter (\<lambda>e. e = Dispatch f0) (trace (snd (walkEntries ?F p ds s1)))
            = filter (\<lambda>e. e = Dispatch f0) (trace s1)"
    proof (rule Cons.IH[OF _ h2])
      fix d q u
      assume "d \<in> set ds"
        "\<forall>t. (f0, t) \<in> set (sources q d) \<longrightarrow> t \<le> lastModTime u f0"
      then show "filter (\<lambda>e. e = Dispatch f0) (trace (snd (walkDir ?F q d u)))
                   = filter (\<lambda>e. e = Dispatch f0) (trace u)"
        using Cons.prems(1)[of d q u] by simp
    qed
    with a r None show ?thesis by simp
  qed
qed

lemma walk_no_dispatch_of:
  "\<forall>t. (f0, t) \<in> set (sources p d) \<longrightarrow> t \<le> lastModTime s f0 \<Longrightarrow>
   filter (\<lambda>e. e = Dispatch f0) (trace (snd (walkDir (walkFn E path g opts keep) p d s)))
     = filter (\<lambda>e. e = Dispatch f0) (trace s)"
proof (induction d arbitrary: p s)
  case (FileE n i)
  have "p \<noteq> f0 \<or> IsDir (FileE n i) \<or> \<not> strings_HasSuffix p ''.templ'' \<or>
        (\<forall>t. Info (FileE n i) = Inr t \<longrightarrow> t \<le> lastModTime s f0)"
    using FileE by (cases i) auto
  from walkFn_no_dispatch_of[OF this, of E path g opts keep None]
  show ?case by simp
next
  case (DirE n es)
  let ?F = "walkFn E path g opts keep"
  obtain r s1 where r: "?F p (DirE n es) None s = (r, s1)"
    by (cases "?F p (DirE n es) None s")
  have a: "filter (\<lambda>e. e = Dispatch f0) (trace s1) = filter (\<lambda>e. e = Dispatch f0) (trace s)"
    using walkFn_no_dispatch_of[of p f0 "DirE n es" s E path g opts keep None] r by simp
  show ?case
  proof (cases r)
    case (Some e)
    with r a show ?thesis by simp
  next
    case None
    have ns: "\<not> shouldSkipDir p"
      using walkFn_dir(2)[of "DirE n es" p E path g opts keep s] r None by auto
    have "?F p (DirE n es) None s = ctx_Err s"
      using walkFn_dir(1)[of "DirE n es" p E path g opts keep s] ns by simp
    with r have "s1 = snd (ctx_Err s)" by simp
    then have l: "lastModTime s1 f0 = lastModTime s f0" by (simp add: lastModTime_def)
    have h: "\<forall>t. (f0, t) \<in> set (sources_in p es) \<longrightarrow> t \<le> lastModTime s1 f0"
      using DirE.prems ns l by simp
    have "filter (\<lambda>e. e = Dispatch f0) (trace (snd (walkEntries ?F p es s1)))
            = filter (\<lambda>e. e = Dispatch f0) (trace s1)"
    proof (rule entries_no_dispatch_of[OF _ h])
      fix d q u
      assume "d \<in> set es"
        "\<forall>t. (f0, t) \<in> set (sources q d) \<longrightarrow> t \<le> lastModTime u f0"
      then show "filter (\<lambda>e. e = Dispatch f0) (trace (snd (walkDir ?F q d u)))
                   = filter (\<lambda>e. e = Dispatch f0) (trace u)"
        by (rule DirE.IH)
    qed
    with a r None show ?thesis by simp
  qed
next
  case (BadDirE n rerr)
  let ?F = "walkFn E path g opts keep"
  obtain r s1 where r: "?F p (BadDirE n rerr) None s = (r, s1)"
    by (cases "?F p (BadDirE n rerr) None s")
  obtain r2 s2 where r2: "?F p (BadDirE n rerr) (Some rerr) s1 = (r2, s2)"
    by (cases "?F p (BadDirE n rerr) (Some rerr) s1")
  have a: "filter (\<lambda>e. e = Dispatch f0) (trace s1) = filter (\<lambda>e. e = Dispatch f0) (trace s)"
    using walkFn_no_dispatch_of[of p f0 "BadDirE n rerr" s E path g opts keep None] r by simp
  have b: "filter (\<lambda>e. e = Dispatch f0) (trace s2) = filter (\<lambda>e. e = Dispatch f0) (trace s1)"
    using walkFn_no_dispatch_of[of p f0 "BadDirE n rerr" s1 E path g opts keep "Some rerr"] r2
    by simp
  from a b r r2 show ?case by (cases r; cases r2) simp_all
qed

lemma processChanges_no_dispatch_of:
  assumes "\<forall>t. (f0, t) \<in> set (sources path d) \<longrightarrow> t \<le> lastModTime s f0"
  shows "filter (\<lambda>e. e = Dispatch f0) (trace (processChanges E path (Inr d) g opts keep s))
           = filter (\<lambda>e. e = Dispatch f0) (trace s)"
proof -
  let ?s0 = "s\<lparr>changesFound := 0, errs := []\<rparr>"
  have "\<forall>t. (f0, t) \<in> set (sources path d) \<longrightarrow> t \<le> lastModTime ?s0 f0"
    using assms by (simp add: lastModTime_def)
  from walk_no_dispatch_of[OF this, of E path g opts keep]
  show ?thesis
    by (simp add: processChanges_def filepath_WalkDir_def case_prod_beta split: option.splits)
qed

lemma all_dispatch_none:
  "(\<And>f0. filter (\<lambda>e. e = Dispatch f0) evs = []) \<Longrightarrow> filter is_Dispatch evs = []"
proof (induction evs)
  case Nil
  then show ?case by simp
next
  case (Cons e evs)
  have rest: "\<And>f0. filter (\<lambda>e. e = Dispatch f0) evs = []"
  proof -
    fix f0
    from Cons.prems[of f0] show "filter (\<lambda>e. e = Dispatch f0) evs = []"
      by (simp split: if_splits)
  qed
  have "\<not> is_Dispatch e"
  proof (cases e)
    case (Dispatch f)
    with Cons.prems[of f] show ?thesis by simp
  qed simp_all
  with Cons.IH[OF rest] show ?case by simp
qed

lemma quiet_scan:
  assumes "\<forall>(f, t)\<in>set (sources path d). t \<le> lastModTime s f"
  shows "changesFound (processChanges E path (Inr d) g opts keep s) = 0"
    and "filter is_Dispatch (trace (processChanges E path (Inr d) g opts keep s))
           = filter is_Dispatch (trace s)"
proof -
  let ?s' = "processChanges E path (Inr d) g opts keep s"
  from processChanges_trace[of s E path "Inr d" g opts keep]
  obtain evs where evs: "trace ?s' = trace s @ evs" by (auto simp: extends_by_scan_def)
  have "\<And>f0. filter (\<lambda>e. e = Dispatch f0) evs = []"
  proof -
    fix f0
    have "\<forall>t. (f0, t) \<in> set (sources path d) \<longrightarrow> t \<le> lastModTime s f0"
      using assms by auto
    from processChanges_no_dispatch_of[OF this, of E g opts keep] evs
    show "filter (\<lambda>e. e = Dispatch f0) evs = []" by simp
  qed
  then have n: "filter is_Dispatch evs = []" by (rule all_dispatch_none)
  with evs show "filter is_Dispatch (trace ?s') = filter is_Dispatch (trace s)" by simp
  with processChanges_count[of E path "Inr d" g opts keep s]
  show "changesFound ?s' = 0" by simp
qed

lemma complete_scan_recorded:
  assumes "fst (filepath_WalkDir path (Inr d) (walkFn E path g opts keep)
                  (s\<lparr>changesFound := 0, errs := []\<rparr>)) = None"
  shows "\<forall>(f, t)\<in>set (sources path d).
           t \<le> lastModTime (processChanges E path (Inr d) g opts keep s) f"
proof -
  let ?s0 = "s\<lparr>changesFound := 0, errs := []\<rparr>"
  let ?F = "walkFn E path g opts keep"
  obtain r s1 where r: "walkDir ?F path d ?s0 = (r, s1)" by (cases "walkDir ?F path d ?s0")
  have "r \<noteq> Some SkipDir" using walkDir_no_SkipDir[of E path g opts keep path d ?s0] r by simp
  with assms r have rn: "r = None"
    by (cases r) (auto simp: filepath_WalkDir_def split: if_splits)
  with r have "processChanges E path (Inr d) g opts keep s = s1"
    by (simp add: processChanges_def filepath_WalkDir_def)
  with walk_recorded[of E path g opts keep path d ?s0 s1] r rn show ?thesis by simp
qed

text \<open>
  The run loop touches the recorded times through the scans only.
\<close>

lemma reportChanges_modTimes [simp]:
  "modTimes (reportChanges E args p frc n es s) = modTimes s"
  by (simp add: reportChanges_def Let_def split: option.splits)

lemma sleepBackOff_modTimes [simp]:
  "modTimes (snd (sleepBackOff bo frc n s)) = modTimes s"
  by (simp add: sleepBackOff_def Let_def case_prod_beta)

lemma afterScan_modTimes:
  "modTimes (snd (afterScan E args p bo frc s1)) = modTimes s1"
proof -
  let ?s2 = "if length (errs s1) > 0 then emit (Error_processing_path (errs s1)) s1 else s1"
  let ?s3 = "if changesFound s1 > 0
             then reportChanges E args p frc (changesFound s1) (errs s1) ?s2 else ?s2"
  have s3: "modTimes ?s3 = modTimes s1" by simp
  show ?thesis
  proof (cases "length (errs s1) > 0 \<and> (errors_Is_Canceled (hd (errs s1)) \<or> \<not> Watch args)")
    case True
    then show ?thesis by (auto simp: afterScan_def)
  next
    case False
    then have a: "afterScan E args p bo frc s1 =
        (case checkTemplVersion E ?s3 (Path args) of
              None \<Rightarrow> (Inl Diverged, ?s3)
            | Some verr \<Rightarrow>
                (let s4 = (case verr of Some e \<Rightarrow> emit (Version_check_failed e) ?s3
                                       | None \<Rightarrow> ?s3)
                 in case sleepBackOff bo frc (changesFound s1) s4 of
                      (bo1, s5) \<Rightarrow> (Inr bo1, s5)))"
      unfolding afterScan_def Let_def by auto
    show ?thesis
    proof (cases "checkTemplVersion E ?s3 (Path args)")
      case None
      with a have "snd (afterScan E args p bo frc s1) = ?s3" by simp
      with s3 show ?thesis by simp
    next
      case (Some verr)
      with a have "modTimes (snd (afterScan E args p bo frc s1)) = modTimes ?s3"
        by (cases verr) (simp_all add: case_prod_beta Let_def)
      with s3 show ?thesis by simp
    qed
  qed
qed

lemma loopBody_advances: "advances s (snd (loopBody E args p opts bo frc inp s))"
proof -
  let ?s1 = "processChanges E (Path args) (fst inp) (GenerateSourceMapVisualisations args)
               opts (KeepOrphanedFiles args) (s\<lparr>fs := snd inp\<rparr>)"
  have "advances (s\<lparr>fs := snd inp\<rparr>) ?s1" by (rule processChanges_advances)
  then show ?thesis
    by (simp add: advances_def loopBody_def afterScan_modTimes)
qed

lemma runCmd_loop_advances:
  "advances s (snd (runCmd_loop E args p opts bo frc inps s))"
proof (induction inps arbitrary: bo frc s)
  case Nil
  then show ?case by (simp add: advances_refl)
next
  case (Cons inp inps)
  obtain r s1 where rs: "loopBody E args p opts bo frc inp s = (r, s1)"
    by (cases "loopBody E args p opts bo frc inp s")
  have a: "advances s s1" using loopBody_advances[of s E args p opts bo frc inp] rs by simp
  show ?case
  proof (cases "\<not> frc \<or> Watch args")
    case False
    then show ?thesis by (simp add: advances_refl)
  next
    case True
    show ?thesis
    proof (cases r)
      case (Inl out)
      with True rs a show ?thesis by simp
    next
      case (Inr bo1)
      have "advances s1 (snd (runCmd_loop E args p opts bo1 True inps s1))" by (rule Cons.IH)
      with a have "advances s (snd (runCmd_loop E args p opts bo1 True inps s1))"
        by (rule advances_trans)
      with True rs Inr show ?thesis by simp
    qed
  qed
qed

text \<open>
  C6. A source file whose modification time is not strictly after the time recorded for
  it is classified as unchanged and is not compiled again: the callback of the walk does
  nothing on it but the check of the context, which leaves the files, the trace, the
  recorded times, the counter and the errors as they are. Hence a scan of a tree all of
  whose source files are not newer than their records counts no changed file and
  dispatches no compilation; a scan whose walk ended without an error has recorded every
  source file of its tree, so that a later scan of the same source files with the same
  modification times, from any state whose records have not gone back, counts no changed
  file (idempotence). A scan, and a whole run of the loop, only ever advance each recorded
  time.
\<close>

theorem C6_unchanged_sources:
  "(\<not> IsDir info \<longrightarrow> strings_HasSuffix fileName ''.templ'' \<longrightarrow> Info info = Inr t \<longrightarrow>
    t \<le> lastModTime s fileName \<longrightarrow>
      walkFn E path g opts keep fileName info None s = ctx_Err s \<and>
      fs (snd (ctx_Err s)) = fs s \<and> trace (snd (ctx_Err s)) = trace s \<and>
      modTimes (snd (ctx_Err s)) = modTimes s \<and>
      changesFound (snd (ctx_Err s)) = changesFound s \<and> errs (snd (ctx_Err s)) = errs s) \<and>
   ((\<forall>(f, t)\<in>set (sources path d'). t \<le> lastModTime s2 f) \<longrightarrow>
      changesFound (processChanges E2 path (Inr d') g2 opts2 keep2 s2) = 0 \<and>
      filter is_Dispatch (trace (processChanges E2 path (Inr d') g2 opts2 keep2 s2))
        = filter is_Dispatch (trace s2)) \<and>
   (fst (filepath_WalkDir path (Inr d) (walkFn E path g opts keep)
           (s\<lparr>changesFound := 0, errs := []\<rparr>)) = None \<longrightarrow>
    set (sources path d') \<subseteq> set (sources path d) \<longrightarrow>
    advances (processChanges E path (Inr d) g opts keep s) s2 \<longrightarrow>
      changesFound (processChanges E2 path (Inr d') g2 opts2 keep2 s2) = 0 \<and>
      filter is_Dispatch (trace (processChanges E2 path (Inr d') g2 opts2 keep2 s2))
        = filter is_Dispatch (trace s2)) \<and>
   advances s (processChanges E path rootEntry g opts keep s) \<and>
   advances s (snd (runCmd_loop E args p opts bo frc inps s))"
proof (intro conjI impI)
  show "walkFn E path g opts keep fileName info None s = ctx_Err s"
    if "\<not> IsDir info" "strings_HasSuffix fileName ''.templ''" "Info info = Inr t"
      "t \<le> lastModTime s fileName"
    using that by (rule walkFn_unchanged_source)
  show "advances s (processChanges E path rootEntry g opts keep s)"
    by (rule processChanges_advances)
  show "advances s (snd (runCmd_loop E args p opts bo frc inps s))"
    by (rule runCmd_loop_advances)
  show "changesFound (processChanges E2 path (Inr d') g2 opts2 keep2 s2) = 0"
    if "\<forall>(f, t)\<in>set (sources path d'). t \<le> lastModTime s2 f"
    using that by (rule quiet_scan(1))
  show "filter is_Dispatch (trace (processChanges E2 path (Inr d') g2 opts2 keep2 s2))
        = filter is_Dispatch (trace s2)"
    if "\<forall>(f, t)\<in>set (sources path d'). t \<le> lastModTime s2 f"
    using that by (rule quiet_scan(2))
  assume c: "fst (filepath_WalkDir path (Inr d) (walkFn E path g opts keep)
           (s\<lparr>changesFound := 0, errs := []\<rparr>)) = None"
    and sub: "set (sources path d') \<subseteq> set (sources path d)"
    and adv: "advances (processChanges E path (Inr d) g opts keep s) s2"
  have old: "\<forall>(f, t)\<in>set (sources path d'). t \<le> lastModTime s2 f"
  proof clarify
    fix f t
    assume "(f, t) \<in> set (sources path d')"
    with sub have "(f, t) \<in> set (sources path d)" by blast
    with complete_scan_recorded[OF c]
    have "t \<le> lastModTime (processChanges E path (Inr d) g opts keep s) f" by blast
    also have "\<dots> \<le> lastModTime s2 f" by (rule advances_lastModTime[OF adv])
    finally show "t \<le> lastModTime s2 f" .
  qed
  show "changesFound (processChanges E2 path (Inr d') g2 opts2 keep2 s2) = 0"
    using old by (rule quiet_scan(1))
  show "filter is_Dispatch (trace (processChanges E2 path (Inr d') g2 opts2 keep2 s2))
        = filter is_Dispatch (trace s2)"
    using old by (rule quiet_scan(2))
qed simp_all

text \<open>
  The theorem at work: the first scan of \<open>tree_b\<close> compiles \<^verbatim>\<open>/proj/b.templ\<close> and
  records its time 7, the second scan of the same tree finds no change, and the callback
  on the file is the check of the context alone.
\<close>

theorem C6_unchanged_sources_witness:
  "changesFound state_after_b = 1 \<and>
   lastModTime state_after_b ''/proj/b.templ'' = 7 \<and>
   changesFound (processChanges env0 ''/proj'' (Inr tree_b) False [] False state_after_b) = 0 \<and>
   walkFn env0 ''/proj'' False [] False ''/proj/b.templ'' (FileE ''b.templ'' (Inr 7)) None
       state_after_b = ctx_Err state_after_b"
proof -
  have c: "fst (filepath_WalkDir ''/proj'' (Inr tree_b) (walkFn env0 ''/proj'' False [] False)
             (state0\<lparr>changesFound := 0, errs := []\<rparr>)) = None"
    by code_simp
  have sub: "set (sources ''/proj'' tree_b) \<subseteq> set (sources ''/proj'' tree_b)" by simp
  have adv: "advances (processChanges env0 ''/proj'' (Inr tree_b) False [] False state0)
               state_after_b"
    by (simp add: state_after_b_def advances_refl)
  have n: "changesFound state_after_b = 1" unfolding state_after_b_def by code_simp
  have l: "lastModTime state_after_b ''/proj/b.templ'' = 7" unfolding state_after_b_def by code_simp
  have h: "\<not> IsDir (FileE ''b.templ'' (Inr 7))"
       "strings_HasSuffix ''/proj/b.templ'' ''.templ''"
       "Info (FileE ''b.templ'' (Inr 7)) = Inr 7"
    by (simp, code_simp, simp)
  note T = C6_unchanged_sources[where E = env0 and path = "''/proj''" and g = False
             and opts = "[]" and keep = False and d = tree_b and d' = tree_b and s = state0
             and ?s2.0 = state_after_b and ?E2.0 = env0 and ?g2.0 = False
             and ?opts2.0 = "[]" and ?keep2.0 = False]
  from T c sub adv
  have z: "changesFound (processChanges env0 ''/proj'' (Inr tree_b) False [] False state_after_b) = 0"
    by blast
  from C6_unchanged_sources[where E = env0 and path = "''/proj''" and g = False
             and opts = "[]" and keep = False and s = state_after_b
             and info = "FileE ''b.templ'' (Inr 7)" and fileName = "''/proj/b.templ''"
             and t = 7] h l
  have w: "walkFn env0 ''/proj'' False [] False ''/proj/b.templ'' (FileE ''b.templ'' (Inr 7)) None
       state_after_b = ctx_Err state_after_b"
    by simp
  from n l z w show ?thesis by simp
qed

section \<open>A changed file is recorded before it is compiled\<close>

lemma walkFn_counts_up:
  "changesFound s \<le> changesFound (snd (walkFn E path g opts keep fileName info err s))"
  by (cases rule: walkFn_cases[of E path g opts keep fileName info err s]) simp_all

lemma visit_then_scan:
  assumes "visits (walkFn E path g opts keep) path d0 (s0\<lparr>changesFound := 0, errs := []\<rparr>)
             fileName info s"
  shows "changesFound (snd (walkFn E path g opts keep fileName info None s))
           \<le> changesFound (processChanges E path (Inr d0) g opts keep s0)"
    and "advances (snd (walkFn E path g opts keep fileName info None s))
           (processChanges E path (Inr d0) g opts keep s0)"
proof -
  let ?F = "walkFn E path g opts keep"
  let ?s0 = "s0\<lparr>changesFound := 0, errs := []\<rparr>"
  let ?R = "\<lambda>a b. changesFound a \<le> changesFound b \<and> advances a b"
  have "?R (snd (?F fileName info None s)) (snd (walkDir ?F path d0 ?s0))"
  proof (rule visits_rel[where R = ?R, OF assms])
    show "\<And>p d e s. ?R s (snd (?F p d e s))"
      by (simp add: walkFn_counts_up walkFn_advances)
    show "\<And>s. ?R s s" by (simp add: advances_refl)
    show "\<And>a b c. ?R a b \<Longrightarrow> ?R b c \<Longrightarrow> ?R a c"
      by (auto intro: advances_trans)
  qed
  moreover have "changesFound (processChanges E path (Inr d0) g opts keep s0)
                   = changesFound (snd (walkDir ?F path d0 ?s0))"
    by (simp add: processChanges_def filepath_WalkDir_def case_prod_beta split: option.splits)
  moreover have "modTimes (processChanges E path (Inr d0) g opts keep s0)
                   = modTimes (snd (walkDir ?F path d0 ?s0))"
    by (simp add: processChanges_def filepath_WalkDir_def case_prod_beta split: option.splits)
  ultimately show
    "changesFound (snd (?F fileName info None s))
       \<le> changesFound (processChanges E path (Inr d0) g opts keep s0)"
    "advances (snd (?F fileName info None s)) (processChanges E path (Inr d0) g opts keep s0)"
    by (simp_all add: advances_def)
qed

text \<open>
  C10. On a source file whose modification time is strictly after the recorded one the
  callback of the walk records the new time and counts the file before the pipeline is
  dispatched: the pipeline starts in a state that holds the new record, and its error, if
  it fails, is only added to the errors of the scan. So whether the compilation fails or
  not, the file is counted among the changed files of the scan, the scan ends with a
  record of the file that is at least the new time, and no later scan dispatches the file
  again as long as the tree holds it with no later modification time.
\<close>

theorem C10_recorded_before_dispatch:
  assumes "\<not> IsDir info" and "strings_HasSuffix fileName ''.templ''" and "Info info = Inr t"
    and "lastModTime s fileName < t" and "fst (ctx_Err s) = None"
  shows
    "walkFn E path g opts keep fileName info None s =
       (None,
        case processSingleFile E path fileName g opts
               (emit (Dispatch fileName)
                  ((snd (ctx_Err s))\<lparr>modTimes := (modTimes s)(fileName \<mapsto> t),
                                      changesFound := changesFound s + 1\<rparr>)) of
          (Some e, s3) \<Rightarrow> s3\<lparr>errs := errs s3 @ [e]\<rparr>
        | (None, s3) \<Rightarrow> s3) \<and>
     modTimes (snd (walkFn E path g opts keep fileName info None s)) fileName = Some t \<and>
     changesFound (snd (walkFn E path g opts keep fileName info None s)) = changesFound s + 1 \<and>
     errs (snd (walkFn E path g opts keep fileName info None s)) =
       errs s @ (case fst (processSingleFile E path fileName g opts
                   (emit (Dispatch fileName)
                      ((snd (ctx_Err s))\<lparr>modTimes := (modTimes s)(fileName \<mapsto> t),
                                          changesFound := changesFound s + 1\<rparr>))) of
                   Some e \<Rightarrow> [e] | None \<Rightarrow> []) \<and>
     (visits (walkFn E path g opts keep) path d0 (s0\<lparr>changesFound := 0, errs := []\<rparr>)
        fileName info s \<longrightarrow>
      changesFound s + 1 \<le> changesFound (processChanges E path (Inr d0) g opts keep s0) \<and>
      t \<le> lastModTime (processChanges E path (Inr d0) g opts keep s0) fileName) \<and>
     (advances (snd (walkFn E path g opts keep fileName info None s)) s2 \<longrightarrow>
      (\<forall>t'. (fileName, t') \<in> set (sources path2 d') \<longrightarrow> t' \<le> t) \<longrightarrow>
      filter (\<lambda>e. e = Dispatch fileName)
          (trace (processChanges E2 path2 (Inr d') g2 opts2 keep2 s2))
        = filter (\<lambda>e. e = Dispatch fileName) (trace s2))"
proof (intro conjI impI)
  let ?s' = "snd (walkFn E path g opts keep fileName info None s)"
  show "walkFn E path g opts keep fileName info None s =
       (None,
        case processSingleFile E path fileName g opts
               (emit (Dispatch fileName)
                  ((snd (ctx_Err s))\<lparr>modTimes := (modTimes s)(fileName \<mapsto> t),
                                      changesFound := changesFound s + 1\<rparr>)) of
          (Some e, s3) \<Rightarrow> s3\<lparr>errs := errs s3 @ [e]\<rparr>
        | (None, s3) \<Rightarrow> s3)"
    using assms by (rule walkFn_changed_source)
  show m: "modTimes ?s' fileName = Some t"
    using assms by (rule walkFn_changed_effect(2))
  show n: "changesFound ?s' = changesFound s + 1"
    using assms by (rule walkFn_changed_effect(3))
  show "errs ?s' =
       errs s @ (case fst (processSingleFile E path fileName g opts
                   (emit (Dispatch fileName)
                      ((snd (ctx_Err s))\<lparr>modTimes := (modTimes s)(fileName \<mapsto> t),
                                          changesFound := changesFound s + 1\<rparr>))) of
                   Some e \<Rightarrow> [e] | None \<Rightarrow> [])"
    using assms by (rule walkFn_changed_effect(4))
  have l: "lastModTime ?s' fileName = t" using m by (simp add: lastModTime_def lookupTime_def)
  {
    assume v: "visits (walkFn E path g opts keep) path d0 (s0\<lparr>changesFound := 0, errs := []\<rparr>)
        fileName info s"
    show "changesFound s + 1 \<le> changesFound (processChanges E path (Inr d0) g opts keep s0)"
      using visit_then_scan(1)[OF v] n by simp
    show "t \<le> lastModTime (processChanges E path (Inr d0) g opts keep s0) fileName"
      using advances_lastModTime[OF visit_then_scan(2)[OF v], of fileName] l by simp
  }
  {
    assume adv: "advances ?s' s2"
      and old: "\<forall>t'. (fileName, t') \<in> set (sources path2 d') \<longrightarrow> t' \<le> t"
    have "t \<le> lastModTime s2 fileName"
      using advances_lastModTime[OF adv, of fileName] l by simp
    with old have "\<forall>t'. (fileName, t') \<in> set (sources path2 d') \<longrightarrow> t' \<le> lastModTime s2 fileName"
      by (meson order_trans)
    then show "filter (\<lambda>e. e = Dispatch fileName)
          (trace (processChanges E2 path2 (Inr d') g2 opts2 keep2 s2))
        = filter (\<lambda>e. e = Dispatch fileName) (trace s2)"
      by (rule processChanges_no_dispatch_of)
  }
qed

text \<open>
  The theorem at work: \<^verbatim>\<open>/proj/a.templ\<close> does not parse; the scan counts it, records
  its time 5 and reports the parsing error, and a second scan of the same tree, in an
  environment where the file would parse, does not compile it again.
\<close>

theorem C10_recorded_before_dispatch_witness:
  "fst (processSingleFile env_bad_a ''/proj'' ''/proj/a.templ'' False []
          (emit (Dispatch ''/proj/a.templ'')
             (state0\<lparr>modTimes := (modTimes state0)(''/proj/a.templ'' \<mapsto> 5),
                      changesFound := changesFound state0 + 1\<rparr>)))
     = Some (Errorf_w ''/proj/a.templ parsing error'' (Ext ''syntax error'')) \<and>
   changesFound state_after_a = 1 \<and>
   modTimes state_after_a ''/proj/a.templ'' = Some 5 \<and>
   errs state_after_a = [Errorf_w ''/proj/a.templ parsing error'' (Ext ''syntax error'')] \<and>
   filter (\<lambda>e. e = Dispatch ''/proj/a.templ'')
       (trace (processChanges env0 ''/proj'' (Inr tree_a) False [] False state_after_a))
     = [Dispatch ''/proj/a.templ'']"
proof -
  let ?info = "FileE ''a.templ'' (Inr 5)"
  let ?s = "state0\<lparr>changesFound := 0, errs := []\<rparr>"
  let ?F = "walkFn env_bad_a ''/proj'' False [] False"
  have same: "?s = state0" by (simp add: state0_def)
  have h: "\<not> IsDir ?info" "strings_HasSuffix ''/proj/a.templ'' ''.templ''" "Info ?info = Inr 5"
    by (simp, code_simp, simp)
  have lt: "lastModTime ?s ''/proj/a.templ'' < 5"
    by (simp add: lastModTime_def lookupTime_def state0_def)
  have c: "fst (ctx_Err ?s) = None" by (simp add: ctx_Err_def state0_def)
  have sk: "shouldSkipDir ''/proj'' = False" by code_simp
  have root: "?F ''/proj'' (DirE ''proj'' [?info]) None ?s = (None, ?s)"
    by (simp add: walkFn_def case_prod_beta ctx_Err_def state0_def sk)
  have j: "filepath_Join ''/proj'' ''a.templ'' = ''/proj/a.templ''" by code_simp
  have v_here: "visits ?F ''/proj/a.templ'' ?info ?s ''/proj/a.templ'' ?info ?s"
    by (rule visits_visits_in.here)
  have v_in: "visits_in ?F ''/proj'' [?info] ?s ''/proj/a.templ'' ?info ?s"
    by (rule visits_visits_in.first) (simp add: j v_here)
  have v: "visits ?F ''/proj'' tree_a ?s ''/proj/a.templ'' ?info ?s"
    unfolding tree_a_def by (rule visits_visits_in.below, rule root, rule v_in)
  have psf: "fst (processSingleFile env_bad_a ''/proj'' ''/proj/a.templ'' False []
          (emit (Dispatch ''/proj/a.templ'')
             (state0\<lparr>modTimes := (modTimes state0)(''/proj/a.templ'' \<mapsto> 5),
                      changesFound := changesFound state0 + 1\<rparr>)))
     = Some (Errorf_w ''/proj/a.templ parsing error'' (Ext ''syntax error''))"
    by code_simp
  have n: "changesFound state_after_a = 1" unfolding state_after_a_def by code_simp
  have m: "modTimes state_after_a ''/proj/a.templ'' = Some 5"
    unfolding state_after_a_def by code_simp
  have e: "errs state_after_a = [Errorf_w ''/proj/a.templ parsing error'' (Ext ''syntax error'')]"
    unfolding state_after_a_def by code_simp
  have tr: "filter (\<lambda>e. e = Dispatch ''/proj/a.templ'') (trace state_after_a)
              = [Dispatch ''/proj/a.templ'']"
    unfolding state_after_a_def by code_simp
  have src: "\<forall>t'. (''/proj/a.templ'', t') \<in> set (sources ''/proj'' tree_a) \<longrightarrow> t' \<le> 5"
    by (simp add: tree_a_def sk j h(2))
  note T = C10_recorded_before_dispatch[OF h lt c, where E = env_bad_a and path = "''/proj''"
             and g = False and opts = "[]" and keep = False and ?d0.0 = tree_a
             and ?s0.0 = state0 and ?s2.0 = state_after_a and ?path2.0 = "''/proj''"
             and d' = tree_a and ?E2.0 = env0 and ?g2.0 = False and ?opts2.0 = "[]"
             and ?keep2.0 = False]
  have adv: "advances (snd (?F ''/proj/a.templ'' ?info None ?s)) state_after_a"
    unfolding state_after_a_def by (rule visit_then_scan(2)[OF v])
  from T adv src
  have "filter (\<lambda>e. e = Dispatch ''/proj/a.templ'')
       (trace (processChanges env0 ''/proj'' (Inr tree_a) False [] False state_after_a))
     = filter (\<lambda>e. e = Dispatch ''/proj/a.templ'') (trace state_after_a)"
    by blast
  with tr psf n m e show ?thesis by simp
qed

end
